theory Spec2Isabelle
  imports Main
begin

section \<open>The key-value store seen by GameRedisMemoryService\<close>

text \<open>
  The service in \<^verbatim>\<open>BE/src/game/redis/game-redis-memory.service.ts\<close> keeps no state of
  its own: everything it does is a round trip to the store client (\<^verbatim>\<open>SCAN\<close>,
  \<^verbatim>\<open>SMEMBERS\<close>, a pipeline of \<^verbatim>\<open>EXPIRE\<close> commands) or a call of the logger.  The
  world threaded through the model holds the keyspace, the list of round trips issued so
  far and the log.
\<close>

datatype rvalue = RSet "string list" | ROther

record entry =
  val :: rvalue
  ttl :: "nat option"

type_synonym keyspace = "string \<rightharpoonup> entry"

datatype cmd = Expire string nat

datatype request =
    Scan string string nat
  | SMembers string
  | Exec "cmd list"

datatype error = TransportError | WrongType

datatype log_entry =
    Verbose_TTL_done
  | Error_TTL_failed error
  | Error_players_TTL_failed string error
  | Error_quiz_TTL_failed string error

record world =
  store :: keyspace
  trace :: "request list"
  logs :: "log_entry list"

text \<open>
  What the service does not control: the reply of the store to a \<^verbatim>\<open>SCAN\<close> and whether
  a round trip is lost.  Both may depend on the moment of the round trip (the number of
  round trips issued before it).
\<close>

record env =
  scan_reply :: "nat \<Rightarrow> string \<Rightarrow> string \<times> string list"
  fault :: "nat \<Rightarrow> request \<Rightarrow> error option"

type_synonym 'a outcome = "(error + 'a) \<times> world"

definition issue :: "request \<Rightarrow> world \<Rightarrow> world" where
  "issue req w = w\<lparr>trace := trace w @ [req]\<rparr>"

definition logger :: "log_entry \<Rightarrow> world \<Rightarrow> world" where
  "logger l w = w\<lparr>logs := logs w @ [l]\<rparr>"

subsection \<open>Store commands\<close>

text \<open>
  \<^verbatim>\<open>EXPIRE key seconds\<close>: a key that does not exist is left absent (the reply is 0), an
  existing key gets the time to live, and a time to live of zero deletes the key.
\<close>

fun run_cmd :: "cmd \<Rightarrow> keyspace \<Rightarrow> keyspace" where
  "run_cmd (Expire k secs) s =
     (case s k of
        None \<Rightarrow> s
      | Some e \<Rightarrow> if secs = 0 then s(k := None) else s(k \<mapsto> e\<lparr>ttl := Some secs\<rparr>))"

fun run_cmds :: "cmd list \<Rightarrow> keyspace \<Rightarrow> keyspace" where
  "run_cmds [] s = s"
| "run_cmds (c # cs) s = run_cmds cs (run_cmd c s)"

text \<open>
  \<^verbatim>\<open>pipeline.exec()\<close>: one round trip carrying every queued command.  A lost round
  trip rejects; otherwise all commands run in order, and the reply of a single command
  is never inspected by the service.
\<close>

definition exec :: "env \<Rightarrow> cmd list \<Rightarrow> world \<Rightarrow> unit outcome" where
  "exec env pipeline w =
     (case fault env (length (trace w)) (Exec pipeline) of
        Some e \<Rightarrow> (Inl e, issue (Exec pipeline) w)
      | None \<Rightarrow> (Inr (), (issue (Exec pipeline) w)\<lparr>store := run_cmds pipeline (store w)\<rparr>))"

text \<open>
  \<^verbatim>\<open>redis.smembers(key)\<close>: the members of a set, none for an absent key, and an error
  reply for a key that holds another type.
\<close>

definition smembers :: "env \<Rightarrow> string \<Rightarrow> world \<Rightarrow> (string list) outcome" where
  "smembers env key w =
     (case fault env (length (trace w)) (SMembers key) of
        Some e \<Rightarrow> (Inl e, issue (SMembers key) w)
      | None \<Rightarrow>
          (case store w key of
             None \<Rightarrow> (Inr [], issue (SMembers key) w)
           | Some e \<Rightarrow>
               (case val e of
                  RSet ms \<Rightarrow> (Inr ms, issue (SMembers key) w)
                | ROther \<Rightarrow> (Inl WrongType, issue (SMembers key) w))))"

text \<open>\<^verbatim>\<open>redis.scan(cursor, 'MATCH', pattern, 'COUNT', count)\<close>.\<close>

definition scan :: "env \<Rightarrow> string \<Rightarrow> string \<Rightarrow> nat \<Rightarrow> world \<Rightarrow> (string \<times> string list) outcome" where
  "scan env cursor pattern count w =
     (case fault env (length (trace w)) (Scan cursor pattern count) of
        Some e \<Rightarrow> (Inl e, issue (Scan cursor pattern count) w)
      | None \<Rightarrow> (Inr (scan_reply env (length (trace w)) cursor), issue (Scan cursor pattern count) w))"

section \<open>Constants of the service\<close>

definition BATCH_SIZE :: nat where
  "BATCH_SIZE = 100"

definition TTL_ROOM :: nat where
  "TTL_ROOM = 3 * 60 * 60"

definition TTL_PLAYER :: nat where
  "TTL_PLAYER = 2 * 60 * 60"

definition TTL_QUIZ :: nat where
  "TTL_QUIZ = 1 * 60 * 60"

definition TTL_LEADERBOARD :: nat where
  "TTL_LEADERBOARD = 3 * 60 * 60"

text \<open>
  Modelled from the spec: the key builders of \<^verbatim>\<open>REDIS_KEY\<close>
  (\<^verbatim>\<open>common/constants/redis-key.constant\<close>, imported by the service but not among the
  sources).  The spec's key naming convention gives
  \<^verbatim>\<open>Room:{roomId}\<close>, \<^verbatim>\<open>Room:{roomId}:Players\<close>, \<^verbatim>\<open>Room:{roomId}:Leaderboard\<close>,
  \<^verbatim>\<open>Room:{roomId}:CurrentQuiz\<close>, \<^verbatim>\<open>Player:{playerId}\<close>, \<^verbatim>\<open>Room:{roomId}:QuizSet\<close>,
  \<^verbatim>\<open>Room:{roomId}:Quiz:{quizId}\<close> and \<^verbatim>\<open>Room:{roomId}:Quiz:{quizId}:Choices\<close>.
\<close>

definition ROOM :: "string \<Rightarrow> string" where
  "ROOM roomId = ''Room:'' @ roomId"

definition ROOM_PLAYERS :: "string \<Rightarrow> string" where
  "ROOM_PLAYERS roomId = ''Room:'' @ roomId @ '':Players''"

definition ROOM_LEADERBOARD :: "string \<Rightarrow> string" where
  "ROOM_LEADERBOARD roomId = ''Room:'' @ roomId @ '':Leaderboard''"

definition ROOM_CURRENT_QUIZ :: "string \<Rightarrow> string" where
  "ROOM_CURRENT_QUIZ roomId = ''Room:'' @ roomId @ '':CurrentQuiz''"

definition PLAYER :: "string \<Rightarrow> string" where
  "PLAYER playerId = ''Player:'' @ playerId"

definition ROOM_QUIZ_SET :: "string \<Rightarrow> string" where
  "ROOM_QUIZ_SET roomId = ''Room:'' @ roomId @ '':QuizSet''"

definition ROOM_QUIZ :: "string \<Rightarrow> string \<Rightarrow> string" where
  "ROOM_QUIZ roomId quizId = ''Room:'' @ roomId @ '':Quiz:'' @ quizId"

definition ROOM_QUIZ_CHOICES :: "string \<Rightarrow> string \<Rightarrow> string" where
  "ROOM_QUIZ_CHOICES roomId quizId = ''Room:'' @ roomId @ '':Quiz:'' @ quizId @ '':Choices''"

section \<open>processBatch\<close>

text \<open>
  \<^verbatim>\<open>roomKey.split(':')\<close>: the pieces between the separators, an empty piece where two
  separators meet or the string ends with one; a string without separator is its only
  piece.
\<close>

fun split_str :: "char \<Rightarrow> string \<Rightarrow> string list" where
  "split_str sep [] = [[]]"
| "split_str sep (c # cs) =
     (if c = sep then [] # split_str sep cs
      else (case split_str sep cs of
              [] \<Rightarrow> [[c]]
            | piece # pieces \<Rightarrow> (c # piece) # pieces))"

text \<open>\<^verbatim>\<open>xs[i]\<close>: \<^verbatim>\<open>undefined\<close> (here \<open>None\<close>) out of range.\<close>

definition index :: "'a list \<Rightarrow> nat \<Rightarrow> 'a option" where
  "index xs i = (if i < length xs then Some (xs ! i) else None)"

text \<open>\<^verbatim>\<open>!roomId\<close>: true for \<^verbatim>\<open>undefined\<close> and for the empty string.\<close>

fun falsy :: "string option \<Rightarrow> bool" where
  "falsy None = True"
| "falsy (Some s) = (s = [])"

definition baseKeys :: "string \<Rightarrow> string list" where
  "baseKeys roomId =
     [ROOM roomId, ROOM_PLAYERS roomId, ROOM_LEADERBOARD roomId, ROOM_CURRENT_QUIZ roomId]"

text \<open>The inner loop: one \<^verbatim>\<open>pipeline.expire(key, this.TTL.ROOM)\<close> for each base key.\<close>

fun expire_keys :: "cmd list \<Rightarrow> string list \<Rightarrow> cmd list" where
  "expire_keys pipeline [] = pipeline"
| "expire_keys pipeline (key # keys) = expire_keys (pipeline @ [Expire key TTL_ROOM]) keys"

text \<open>The outer loop over the page, with its \<^verbatim>\<open>continue\<close>.\<close>

fun processBatch_loop :: "cmd list \<Rightarrow> string list \<Rightarrow> cmd list" where
  "processBatch_loop pipeline [] = pipeline"
| "processBatch_loop pipeline (roomKey # rooms) =
     (let roomId = index (split_str CHR '':'' roomKey) 1 in
      if falsy roomId then processBatch_loop pipeline rooms
      else processBatch_loop (expire_keys pipeline (baseKeys (the roomId))) rooms)"

definition processBatch :: "env \<Rightarrow> string list \<Rightarrow> world \<Rightarrow> unit outcome" where
  "processBatch env rooms w = exec env (processBatch_loop [] rooms) w"

section \<open>manageTTL\<close>

text \<open>
  The \<^verbatim>\<open>do ... while (cursor !== '0')\<close> loop.  Nothing in the service bounds the number
  of pages, so a run that never comes back to the cursor \<^verbatim>\<open>'0'\<close> is \<open>None\<close>.  An error
  of a round trip leaves the loop at once.
\<close>

partial_function (option) manageTTL_loop :: "env \<Rightarrow> string \<Rightarrow> world \<Rightarrow> (unit outcome) option" where
  "manageTTL_loop env cursor w =
     (case scan env cursor ''Room:*'' BATCH_SIZE w of
        (Inl e, w1) \<Rightarrow> Some (Inl e, w1)
      | (Inr (nextCursor, rooms), w1) \<Rightarrow>
          (case (if length rooms > 0 then processBatch env rooms w1 else (Inr (), w1)) of
             (Inl e, w2) \<Rightarrow> Some (Inl e, w2)
           | (Inr u, w2) \<Rightarrow>
               if nextCursor \<noteq> ''0'' then manageTTL_loop env nextCursor w2
               else Some (Inr (), w2)))"

text \<open>The \<^verbatim>\<open>try\<close> around the whole body, and the two log lines.\<close>

definition manageTTL :: "env \<Rightarrow> world \<Rightarrow> (unit outcome) option" where
  "manageTTL env w =
     (case manageTTL_loop env ''0'' w of
        None \<Rightarrow> None
      | Some (Inr u, w') \<Rightarrow> Some (Inr (), logger Verbose_TTL_done w')
      | Some (Inl e, w') \<Rightarrow> Some (Inr (), logger (Error_TTL_failed e) w'))"

section \<open>setPlayersTTL and setQuizTTL\<close>

fun setPlayersTTL_loop :: "cmd list \<Rightarrow> string list \<Rightarrow> cmd list" where
  "setPlayersTTL_loop pipeline [] = pipeline"
| "setPlayersTTL_loop pipeline (playerId # players) =
     setPlayersTTL_loop (pipeline @ [Expire (PLAYER playerId) TTL_PLAYER]) players"

definition setPlayersTTL_try :: "env \<Rightarrow> string \<Rightarrow> world \<Rightarrow> unit outcome" where
  "setPlayersTTL_try env roomId w =
     (case smembers env (ROOM_PLAYERS roomId) w of
        (Inl e, w1) \<Rightarrow> (Inl e, w1)
      | (Inr players, w1) \<Rightarrow> exec env (setPlayersTTL_loop [] players) w1)"

definition setPlayersTTL :: "env \<Rightarrow> string \<Rightarrow> world \<Rightarrow> unit outcome" where
  "setPlayersTTL env roomId w =
     (case setPlayersTTL_try env roomId w of
        (Inl e, w') \<Rightarrow> (Inr (), logger (Error_players_TTL_failed roomId e) w')
      | (Inr u, w') \<Rightarrow> (Inr (), w'))"

fun setQuizTTL_loop :: "string \<Rightarrow> cmd list \<Rightarrow> string list \<Rightarrow> cmd list" where
  "setQuizTTL_loop roomId pipeline [] = pipeline"
| "setQuizTTL_loop roomId pipeline (quizId # quizList) =
     setQuizTTL_loop roomId
       (pipeline @ [Expire (ROOM_QUIZ roomId quizId) TTL_QUIZ,
                    Expire (ROOM_QUIZ_CHOICES roomId quizId) TTL_QUIZ]) quizList"

definition setQuizTTL_try :: "env \<Rightarrow> string \<Rightarrow> world \<Rightarrow> unit outcome" where
  "setQuizTTL_try env roomId w =
     (case smembers env (ROOM_QUIZ_SET roomId) w of
        (Inl e, w1) \<Rightarrow> (Inl e, w1)
      | (Inr quizList, w1) \<Rightarrow> exec env (setQuizTTL_loop roomId [] quizList) w1)"

definition setQuizTTL :: "env \<Rightarrow> string \<Rightarrow> world \<Rightarrow> unit outcome" where
  "setQuizTTL env roomId w =
     (case setQuizTTL_try env roomId w of
        (Inl e, w') \<Rightarrow> (Inr (), logger (Error_quiz_TTL_failed roomId e) w')
      | (Inr u, w') \<Rightarrow> (Inr (), w'))"

section \<open>setRoomTTL\<close>

text \<open>
  \<^verbatim>\<open>Promise.allSettled\<close> turns every promise, fulfilled or rejected, into a record of
  how it settled, and is itself always fulfilled.
\<close>

datatype 'a settled = Fulfilled 'a | Rejected error

fun settle :: "error + 'a \<Rightarrow> 'a settled" where
  "settle (Inr v) = Fulfilled v"
| "settle (Inl e) = Rejected e"

definition allSettled :: "(error + 'a) list \<Rightarrow> error + 'a settled list" where
  "allSettled promises = Inr (map settle promises)"

subsection \<open>The two membership tasks between their awaits\<close>

text \<open>
  An async function runs without interruption from one \<^verbatim>\<open>await\<close> to the next.
  \<^verbatim>\<open>setPlayersTTL\<close> has two of them, so it runs in three pieces: up to the
  \<^verbatim>\<open>await\<close> of \<^verbatim>\<open>smembers\<close>, which issues the read; from the reply of the read up to
  the \<^verbatim>\<open>await\<close> of \<^verbatim>\<open>pipeline.exec()\<close>, which queues the expirations and issues the
  pipeline, or lands in the \<^verbatim>\<open>catch\<close> when the read failed; and from the reply of the
  pipeline to the end, which lands in the \<^verbatim>\<open>catch\<close> when the pipeline failed.  A task
  between two pieces is either settled or waits for a reply that is already determined.
\<close>

datatype task = Settled "error + unit" | Awaiting "error + unit"

definition setPlayersTTL_start :: "env \<Rightarrow> string \<Rightarrow> world \<Rightarrow> (string list) outcome" where
  "setPlayersTTL_start env roomId w = smembers env (ROOM_PLAYERS roomId) w"

definition setPlayersTTL_resume :: "env \<Rightarrow> string \<Rightarrow> error + string list \<Rightarrow> world \<Rightarrow> task \<times> world" where
  "setPlayersTTL_resume env roomId reply w =
     (case reply of
        Inl e \<Rightarrow> (Settled (Inr ()), logger (Error_players_TTL_failed roomId e) w)
      | Inr players \<Rightarrow>
          (case exec env (setPlayersTTL_loop [] players) w of
             (answer, w') \<Rightarrow> (Awaiting answer, w')))"

definition setPlayersTTL_settle :: "string \<Rightarrow> task \<Rightarrow> world \<Rightarrow> unit outcome" where
  "setPlayersTTL_settle roomId t w =
     (case t of
        Settled p \<Rightarrow> (p, w)
      | Awaiting answer \<Rightarrow>
          (case answer of
             Inl e \<Rightarrow> (Inr (), logger (Error_players_TTL_failed roomId e) w)
           | Inr u \<Rightarrow> (Inr (), w)))"

definition setQuizTTL_start :: "env \<Rightarrow> string \<Rightarrow> world \<Rightarrow> (string list) outcome" where
  "setQuizTTL_start env roomId w = smembers env (ROOM_QUIZ_SET roomId) w"

definition setQuizTTL_resume :: "env \<Rightarrow> string \<Rightarrow> error + string list \<Rightarrow> world \<Rightarrow> task \<times> world" where
  "setQuizTTL_resume env roomId reply w =
     (case reply of
        Inl e \<Rightarrow> (Settled (Inr ()), logger (Error_quiz_TTL_failed roomId e) w)
      | Inr quizList \<Rightarrow>
          (case exec env (setQuizTTL_loop roomId [] quizList) w of
             (answer, w') \<Rightarrow> (Awaiting answer, w')))"

definition setQuizTTL_settle :: "string \<Rightarrow> task \<Rightarrow> world \<Rightarrow> unit outcome" where
  "setQuizTTL_settle roomId t w =
     (case t of
        Settled p \<Rightarrow> (p, w)
      | Awaiting answer \<Rightarrow>
          (case answer of
             Inl e \<Rightarrow> (Inr (), logger (Error_quiz_TTL_failed roomId e) w)
           | Inr u \<Rightarrow> (Inr (), w)))"

subsection \<open>The fan-out\<close>

text \<open>
  The three calls of the array literal are made one after the other, and each of them
  returns at its first \<^verbatim>\<open>await\<close>: \<^verbatim>\<open>processBatch\<close> with its pipeline issued,
  \<^verbatim>\<open>setPlayersTTL\<close> and \<^verbatim>\<open>setQuizTTL\<close> with their membership reads issued.  So the
  first three requests are the pipeline of the base keys, the read of the player set and
  the read of the quiz set, in that order, before any reply is looked at.  The client
  answers in the order of the requests, and each task goes on when its reply is there:
  \<^verbatim>\<open>processBatch\<close> settles, then \<^verbatim>\<open>setPlayersTTL\<close> issues its pipeline (or logs the
  failed read), then \<^verbatim>\<open>setQuizTTL\<close> does; at last the two pipelines are answered, again
  in that order.
\<close>

definition setRoomTTL_tasks :: "env \<Rightarrow> string \<Rightarrow> world \<Rightarrow> (error + unit) list \<times> world" where
  "setRoomTTL_tasks env roomId w =
     (case processBatch env [ROOM roomId] w of
        (p1, w1) \<Rightarrow>
     (case setPlayersTTL_start env roomId w1 of
        (players, w2) \<Rightarrow>
     (case setQuizTTL_start env roomId w2 of
        (quizList, w3) \<Rightarrow>
     (case setPlayersTTL_resume env roomId players w3 of
        (t2, w4) \<Rightarrow>
     (case setQuizTTL_resume env roomId quizList w4 of
        (t3, w5) \<Rightarrow>
     (case setPlayersTTL_settle roomId t2 w5 of
        (p2, w6) \<Rightarrow>
     (case setQuizTTL_settle roomId t3 w6 of
        (p3, w7) \<Rightarrow> ([p1, p2, p3], w7))))))))"

definition setRoomTTL :: "env \<Rightarrow> string \<Rightarrow> world \<Rightarrow> unit outcome" where
  "setRoomTTL env roomId w =
     (case setRoomTTL_tasks env roomId w of
        (promises, w') \<Rightarrow>
          (case allSettled promises of
             Inl e \<Rightarrow> (Inl e, w')
           | Inr results \<Rightarrow> (Inr (), w')))"

section \<open>What the specification says, in its own words\<close>

text \<open>
  The room identifier of a scanned key, as the specification of \<^verbatim>\<open>expirePage\<close> puts
  it: the key segment after the namespace separator; a key without separator or with an
  empty segment does not parse.
\<close>

definition room_identifier :: "string \<Rightarrow> string option" where
  "room_identifier roomKey =
     (case dropWhile (\<lambda>c. c \<noteq> CHR '':'') roomKey of
        [] \<Rightarrow> None
      | sep # rest \<Rightarrow>
          (let roomId = takeWhile (\<lambda>c. c \<noteq> CHR '':'') rest
           in if roomId = [] then None else Some roomId))"

text \<open>
  The expirations the specification asks for one scanned key: the four base derived keys
  of its room (record, player set, leaderboard, current-quiz pointer), all with the
  \<^verbatim>\<open>ROOM\<close> class; nothing for a key that does not parse.
\<close>

definition room_commands :: "string \<Rightarrow> cmd list" where
  "room_commands roomKey =
     (case room_identifier roomKey of
        None \<Rightarrow> []
      | Some roomId \<Rightarrow>
          [Expire (ROOM roomId) TTL_ROOM,
           Expire (ROOM_PLAYERS roomId) TTL_ROOM,
           Expire (ROOM_LEADERBOARD roomId) TTL_ROOM,
           Expire (ROOM_CURRENT_QUIZ roomId) TTL_ROOM])"

definition page_commands :: "string list \<Rightarrow> cmd list" where
  "page_commands rooms = concat (map room_commands rooms)"

text \<open>The part of a room identifier before its first colon.\<close>

definition before_colon :: "string \<Rightarrow> string" where
  "before_colon roomId = takeWhile (\<lambda>c. c \<noteq> CHR '':'') roomId"

text \<open>One \<^verbatim>\<open>PLAYER\<close>-class expiration for each member of the player set.\<close>

definition player_commands :: "string list \<Rightarrow> cmd list" where
  "player_commands players = map (\<lambda>playerId. Expire (PLAYER playerId) TTL_PLAYER) players"

text \<open>Two \<^verbatim>\<open>QUIZ\<close>-class expirations (record and choices) for each member of the quiz set.\<close>

definition quiz_commands :: "string \<Rightarrow> string list \<Rightarrow> cmd list" where
  "quiz_commands roomId quizList =
     concat (map (\<lambda>quizId. [Expire (ROOM_QUIZ roomId quizId) TTL_QUIZ,
                              Expire (ROOM_QUIZ_CHOICES roomId quizId) TTL_QUIZ]) quizList)"

text \<open>
  A full iteration of the store's scan, as the specification of \<^verbatim>\<open>scanPage\<close> describes
  it: starting from a cursor, each reply gives the next cursor and a page, and the
  iteration is over with the first reply whose cursor is \<^verbatim>\<open>"0"\<close>.  The list holds the
  replies in order.
\<close>

fun scan_yields :: "(string \<Rightarrow> string \<times> string list) \<Rightarrow> string \<Rightarrow> (string \<times> string list) list \<Rightarrow> bool" where
  "scan_yields sc cursor [] = False"
| "scan_yields sc cursor ((nextCursor, rooms) # steps) =
     (sc cursor = (nextCursor, rooms)
      \<and> (if nextCursor = ''0'' then steps = [] else scan_yields sc nextCursor steps))"

text \<open>
  The round trips of a sweep over such an iteration: one scan for each reply, followed by
  one pipeline for the page when the page is not empty.
\<close>

fun sweep_trace :: "string \<Rightarrow> (string \<times> string list) list \<Rightarrow> request list" where
  "sweep_trace cursor [] = []"
| "sweep_trace cursor ((nextCursor, rooms) # steps) =
     Scan cursor ''Room:*'' BATCH_SIZE
     # (if rooms = [] then [] else [Exec (page_commands rooms)])
     @ sweep_trace nextCursor steps"

text \<open>The commands carried by the pipelines of a trace, in order.\<close>

fun pipelined :: "request list \<Rightarrow> cmd list" where
  "pipelined [] = []"
| "pipelined (Exec cs # reqs) = cs @ pipelined reqs"
| "pipelined (req # reqs) = pipelined reqs"

section \<open>Auxiliary notions for the proofs\<close>

fun cmd_key :: "cmd \<Rightarrow> string" where
  "cmd_key (Expire k secs) = k"

fun cmd_ttl :: "cmd \<Rightarrow> nat" where
  "cmd_ttl (Expire k secs) = secs"

text \<open>The time to live that the last command of a pipeline aimed at a key gives it.\<close>

fun last_ttl :: "cmd list \<Rightarrow> string \<Rightarrow> nat option" where
  "last_ttl [] k = None"
| "last_ttl (c # cs) k =
     (case last_ttl cs k of
        Some secs \<Rightarrow> Some secs
      | None \<Rightarrow> if cmd_key c = k then Some (cmd_ttl c) else None)"

definition set_ttl :: "nat option \<Rightarrow> entry \<Rightarrow> entry" where
  "set_ttl t e = (case t of None \<Rightarrow> e | Some secs \<Rightarrow> e\<lparr>ttl := Some secs\<rparr>)"

text \<open>What \<^verbatim>\<open>SMEMBERS\<close> finds under a key of a keyspace.\<close>

definition members_of :: "keyspace \<Rightarrow> string \<Rightarrow> string list" where
  "members_of s key =
     (case s key of
        None \<Rightarrow> []
      | Some e \<Rightarrow> (case val e of RSet ms \<Rightarrow> ms | ROther \<Rightarrow> []))"

text \<open>A key that holds something else than a set: \<^verbatim>\<open>SMEMBERS\<close> answers with an error.\<close>

definition wrong_type :: "keyspace \<Rightarrow> string \<Rightarrow> bool" where
  "wrong_type s key = (case s key of None \<Rightarrow> False | Some e \<Rightarrow> val e = ROther)"

text \<open>All the expirations of one refresh of a room, in the order of the three tasks.\<close>

definition refresh_commands :: "keyspace \<Rightarrow> string \<Rightarrow> cmd list" where
  "refresh_commands s roomId =
     page_commands [ROOM roomId]
     @ player_commands (members_of s (ROOM_PLAYERS roomId))
     @ quiz_commands roomId (members_of s (ROOM_QUIZ_SET roomId))"

text \<open>
  What one call leaves unchanged or only extends: the keys present, the log, and the
  trace, which grows at its end; and when the call rejects, the request that was lost is
  the last one issued.
\<close>

definition grows :: "env \<Rightarrow> world \<Rightarrow> (error + 'a) \<times> world \<Rightarrow> bool" where
  "grows env w y \<longleftrightarrow>
     dom (store (snd y)) = dom (store w)
     \<and> logs (snd y) = logs w
     \<and> (\<exists>more. trace (snd y) = trace w @ more)
     \<and> (\<forall>e. fst y = Inl e \<longrightarrow>
           length (trace w) < length (trace (snd y))
           \<and> fault env (length (trace (snd y)) - 1) (last (trace (snd y))) = Some e)"

section \<open>Concrete scenarios\<close>

text \<open>An environment in which no round trip is lost and the keyspace has no room key.\<close>

definition quiet :: env where
  "quiet = \<lparr>scan_reply = (\<lambda>t cursor. (''0'', [])), fault = (\<lambda>t req. None)\<rparr>"

definition plain :: entry where
  "plain = \<lparr>val = ROther, ttl = None\<rparr>"

definition world_of :: "keyspace \<Rightarrow> world" where
  "world_of s = \<lparr>store = s, trace = [], logs = []\<rparr>"

text \<open>
  The first end-to-end scenario of the specification: room 42 with the players
  \<^verbatim>\<open>p1\<close>, \<^verbatim>\<open>p2\<close> and the quiz \<^verbatim>\<open>q1\<close>, every derived key present and none with a
  time to live yet.
\<close>

definition room42 :: keyspace where
  "room42 =
     [''Room:42'' \<mapsto> plain,
      ''Room:42:Players'' \<mapsto> \<lparr>val = RSet [''p1'', ''p2''], ttl = None\<rparr>,
      ''Room:42:QuizSet'' \<mapsto> \<lparr>val = RSet [''q1''], ttl = None\<rparr>,
      ''Room:42:Leaderboard'' \<mapsto> plain,
      ''Room:42:CurrentQuiz'' \<mapsto> plain,
      ''Player:p1'' \<mapsto> plain,
      ''Player:p2'' \<mapsto> plain,
      ''Room:42:Quiz:q1'' \<mapsto> plain,
      ''Room:42:Quiz:q1:Choices'' \<mapsto> plain]"

text \<open>The same room with just the three keys that the scenario names.\<close>

definition room42_bare :: keyspace where
  "room42_bare =
     [''Room:42'' \<mapsto> plain,
      ''Room:42:Players'' \<mapsto> \<lparr>val = RSet [''p1'', ''p2''], ttl = None\<rparr>,
      ''Room:42:QuizSet'' \<mapsto> \<lparr>val = RSet [''q1''], ttl = None\<rparr>]"

text \<open>An environment in which every read of the player set of room 42 is lost.\<close>

definition players_down :: env where
  "players_down =
     \<lparr>scan_reply = (\<lambda>t cursor. (''0'', [])),
      fault = (\<lambda>t req. if req = SMembers ''Room:42:Players'' then Some TransportError else None)\<rparr>"

text \<open>A keyspace scanned in three pages, the second of them empty.\<close>

definition paged_scan :: "string \<Rightarrow> string \<times> string list" where
  "paged_scan cursor =
     (if cursor = ''0'' then (''7'', [''Room:42'', ''Room:42:Players''])
      else if cursor = ''7'' then (''3'', [])
      else (''0'', [''Room:9'']))"

definition paged :: env where
  "paged = \<lparr>scan_reply = (\<lambda>t. paged_scan), fault = (\<lambda>t req. None)\<rparr>"

text \<open>
  An environment with two pages in which the fourth round trip ever issued (the pipeline
  of the second page of the first sweep) is lost, and no other.
\<close>

definition flaky :: env where
  "flaky =
     \<lparr>scan_reply = (\<lambda>t cursor. if cursor = ''0'' then (''7'', [''Room:1''])
                                else (''0'', [''Room:2''])),
      fault = (\<lambda>t req. if t = 3 then Some TransportError else None)\<rparr>"

text \<open>An environment in which every round trip is lost.\<close>

definition all_down :: env where
  "all_down = \<lparr>scan_reply = (\<lambda>t cursor. (''0'', [])), fault = (\<lambda>t req. Some TransportError)\<rparr>"

section \<open>Lemmas\<close>

lemma split_str_nonempty: "split_str sep s \<noteq> []"
  by (induction s) (auto split: list.splits)

lemma split_str_Cons:
  "split_str sep (c # cs) =
     (if c = sep then [] # split_str sep cs
      else (c # hd (split_str sep cs)) # tl (split_str sep cs))"
  using split_str_nonempty [of sep cs] by (cases "split_str sep cs") auto

lemma hd_split_str: "hd (split_str sep s) = takeWhile (\<lambda>c. c \<noteq> sep) s"
  by (induction s) (simp_all add: split_str_Cons del: split_str.simps(2))

lemma tl_split_str:
  "tl (split_str sep s) =
     (case dropWhile (\<lambda>c. c \<noteq> sep) s of [] \<Rightarrow> [] | c # rest \<Rightarrow> split_str sep rest)"
  by (induction s) (simp_all add: split_str_Cons del: split_str.simps(2))

lemma index_split_1:
  "index (split_str sep s) (Suc 0) =
     (case dropWhile (\<lambda>c. c \<noteq> sep) s of
        [] \<Rightarrow> None
      | c # rest \<Rightarrow> Some (takeWhile (\<lambda>c. c \<noteq> sep) rest))"
proof -
  obtain x ys where xs: "split_str sep s = x # ys"
    using split_str_nonempty [of sep s] by (cases "split_str sep s") auto
  have ys: "ys = tl (split_str sep s)" using xs by simp
  show ?thesis
  proof (cases "dropWhile (\<lambda>c. c \<noteq> sep) s")
    case Nil
    have "ys = []" unfolding ys tl_split_str Nil by simp
    then show ?thesis unfolding xs Nil by (simp add: index_def)
  next
    case (Cons c rest)
    have "ys = split_str sep rest" unfolding ys tl_split_str Cons by simp
    moreover obtain y zs where "split_str sep rest = y # zs"
      using split_str_nonempty [of sep rest] by (cases "split_str sep rest") auto
    moreover have "hd (split_str sep rest) = takeWhile (\<lambda>c. c \<noteq> sep) rest"
      by (rule hd_split_str)
    ultimately show ?thesis unfolding xs Cons by (simp add: index_def)
  qed
qed

lemma expire_keys_eq: "expire_keys pipeline keys = pipeline @ map (\<lambda>k. Expire k TTL_ROOM) keys"
  by (induction keys arbitrary: pipeline) auto

lemma index_split_room_identifier:
  "index (split_str CHR '':'' roomKey) 1 =
     (case dropWhile (\<lambda>c. c \<noteq> CHR '':'') roomKey of
        [] \<Rightarrow> None
      | sep # rest \<Rightarrow> Some (takeWhile (\<lambda>c. c \<noteq> CHR '':'') rest))"
  unfolding One_nat_def by (rule index_split_1)

lemma falsy_index_split:
  "falsy (index (split_str CHR '':'' roomKey) 1) \<longleftrightarrow> room_identifier roomKey = None"
proof (cases "dropWhile (\<lambda>c. c \<noteq> CHR '':'') roomKey")
  case Nil
  show ?thesis unfolding index_split_room_identifier room_identifier_def Nil by simp
next
  case (Cons sep rest)
  show ?thesis unfolding index_split_room_identifier room_identifier_def Cons
    by (simp add: Let_def)
qed

lemma the_index_split:
  assumes "room_identifier roomKey = Some roomId"
  shows "the (index (split_str CHR '':'' roomKey) 1) = roomId"
proof (cases "dropWhile (\<lambda>c. c \<noteq> CHR '':'') roomKey")
  case Nil
  show ?thesis using assms unfolding index_split_room_identifier room_identifier_def Nil by simp
next
  case (Cons sep rest)
  show ?thesis using assms unfolding index_split_room_identifier room_identifier_def Cons
    by (simp add: Let_def split: if_splits)
qed

lemma processBatch_loop_step:
  "processBatch_loop pipeline (roomKey # rooms) =
     processBatch_loop (pipeline @ room_commands roomKey) rooms"
proof (cases "room_identifier roomKey")
  case None
  then show ?thesis
    using falsy_index_split [of roomKey] by (simp add: room_commands_def Let_def)
next
  case (Some roomId)
  then have "\<not> falsy (index (split_str CHR '':'' roomKey) 1)"
    using falsy_index_split [of roomKey] by simp
  then show ?thesis
    using Some the_index_split [OF Some]
    by (simp add: room_commands_def Let_def expire_keys_eq baseKeys_def)
qed

lemma processBatch_loop_eq:
  "processBatch_loop pipeline rooms = pipeline @ page_commands rooms"
proof (induction rooms arbitrary: pipeline)
  case Nil
  then show ?case by (simp add: page_commands_def)
next
  case (Cons roomKey rooms)
  show ?case
    unfolding processBatch_loop_step Cons.IH by (simp add: page_commands_def)
qed

lemma exec_trace: "trace (snd (exec env pipeline w)) = trace w @ [Exec pipeline]"
  by (simp add: exec_def issue_def split: option.splits)

lemma room_identifier_ROOM:
  "room_identifier (ROOM roomId) = (if before_colon roomId = [] then None else Some (before_colon roomId))"
  by (simp add: room_identifier_def ROOM_def before_colon_def Let_def)

lemma run_cmds_append: "run_cmds (cs @ ds) s = run_cmds ds (run_cmds cs s)"
  by (induction cs arbitrary: s) auto

lemma run_cmd_lookup:
  "0 < cmd_ttl c \<Longrightarrow>
   run_cmd c s k = (if cmd_key c = k then map_option (set_ttl (Some (cmd_ttl c))) (s k) else s k)"
  by (cases c) (auto simp: set_ttl_def split: option.splits)

lemma set_ttl_set_ttl:
  "set_ttl t (set_ttl t' e) = set_ttl (case t of Some secs \<Rightarrow> Some secs | None \<Rightarrow> t') e"
  by (auto simp: set_ttl_def split: option.splits)

lemma run_cmds_lookup:
  "\<forall>c\<in>set cs. 0 < cmd_ttl c \<Longrightarrow>
   run_cmds cs s k = map_option (set_ttl (last_ttl cs k)) (s k)"
proof (induction cs arbitrary: s)
  case Nil
  then show ?case by (simp add: set_ttl_def option.map_ident)
next
  case (Cons c cs)
  then have pos: "0 < cmd_ttl c" and rest: "\<forall>c\<in>set cs. 0 < cmd_ttl c" by simp_all
  have "run_cmds (c # cs) s k = map_option (set_ttl (last_ttl cs k)) (run_cmd c s k)"
    using Cons.IH [OF rest] by simp
  also have "\<dots> = map_option (set_ttl (last_ttl (c # cs) k)) (s k)"
    by (cases "s k") (auto simp: run_cmd_lookup [OF pos] set_ttl_set_ttl split: option.splits)
  finally show ?case .
qed

lemma run_cmds_idem:
  assumes "\<forall>c\<in>set cs. 0 < cmd_ttl c"
  shows "run_cmds cs (run_cmds cs s) = run_cmds cs s"
proof
  fix k
  show "run_cmds cs (run_cmds cs s) k = run_cmds cs s k"
    unfolding run_cmds_lookup [OF assms]
    by (cases "s k") (auto simp: set_ttl_set_ttl split: option.splits)
qed

lemma run_cmds_dom:
  "\<forall>c\<in>set cs. 0 < cmd_ttl c \<Longrightarrow> dom (run_cmds cs s) = dom s"
  by (auto simp: run_cmds_lookup dom_def)

lemma run_cmds_val:
  "\<forall>c\<in>set cs. 0 < cmd_ttl c \<Longrightarrow> map_option val (run_cmds cs s k) = map_option val (s k)"
  by (cases "s k") (auto simp: run_cmds_lookup set_ttl_def split: option.splits)

lemma last_ttl_mem: "last_ttl cs k = Some secs \<Longrightarrow> Expire k secs \<in> set cs"
proof (induction cs)
  case Nil then show ?case by simp
next
  case (Cons c cs)
  then show ?case by (cases c) (auto split: option.splits if_splits)
qed

lemma last_ttl_None: "last_ttl cs k = None \<longleftrightarrow> k \<notin> cmd_key ` set cs"
  by (induction cs) (auto split: option.splits)

lemma run_cmds_ttl:
  assumes pos: "\<forall>c\<in>set cs. 0 < cmd_ttl c"
      and mem: "Expire k secs \<in> set cs"
      and uniq: "\<forall>c\<in>set cs. cmd_key c = k \<longrightarrow> cmd_ttl c = secs"
      and ex: "s k = Some e"
  shows "run_cmds cs s k = Some (e\<lparr>ttl := Some secs\<rparr>)"
proof -
  have "k \<in> cmd_key ` set cs" using mem by force
  then obtain t where t: "last_ttl cs k = Some t"
    using last_ttl_None [of cs k] by (cases "last_ttl cs k") auto
  from last_ttl_mem [OF t] uniq have "t = secs" by force
  then show ?thesis using t ex by (simp add: run_cmds_lookup [OF pos] set_ttl_def)
qed

lemma setPlayersTTL_loop_eq:
  "setPlayersTTL_loop pipeline players = pipeline @ player_commands players"
  by (induction players arbitrary: pipeline) (auto simp: player_commands_def)

lemma setQuizTTL_loop_eq:
  "setQuizTTL_loop roomId pipeline quizList = pipeline @ quiz_commands roomId quizList"
  by (induction quizList arbitrary: pipeline) (auto simp: quiz_commands_def)

lemma exec_fst:
  "fst (exec env pipeline w) =
     (case fault env (length (trace w)) (Exec pipeline) of Some e \<Rightarrow> Inl e | None \<Rightarrow> Inr ())"
  by (simp add: exec_def split: option.splits)

lemma exec_logs: "logs (snd (exec env pipeline w)) = logs w"
  by (simp add: exec_def issue_def split: option.splits)

lemma exec_store:
  "store (snd (exec env pipeline w)) =
     (case fault env (length (trace w)) (Exec pipeline) of
        Some e \<Rightarrow> store w | None \<Rightarrow> run_cmds pipeline (store w))"
  by (simp add: exec_def issue_def split: option.splits)

lemma smembers_trace: "trace (snd (smembers env key w)) = trace w @ [SMembers key]"
  by (simp add: smembers_def issue_def split: option.splits rvalue.splits)

lemma smembers_logs: "logs (snd (smembers env key w)) = logs w"
  by (simp add: smembers_def issue_def split: option.splits rvalue.splits)

lemma smembers_store: "store (snd (smembers env key w)) = store w"
  by (simp add: smembers_def issue_def split: option.splits rvalue.splits)

lemma setPlayersTTL_fst: "fst (setPlayersTTL env roomId w) = Inr ()"
  by (simp add: setPlayersTTL_def split: prod.splits sum.splits)

lemma setQuizTTL_fst: "fst (setQuizTTL env roomId w) = Inr ()"
  by (simp add: setQuizTTL_def split: prod.splits sum.splits)

lemma setPlayersTTL_try_trace:
  "\<exists>rest. trace (snd (setPlayersTTL_try env roomId w)) =
            trace w @ SMembers (ROOM_PLAYERS roomId) # rest"
proof (cases "smembers env (ROOM_PLAYERS roomId) w")
  case (Pair r w1)
  have t: "trace w1 = trace w @ [SMembers (ROOM_PLAYERS roomId)]"
    using smembers_trace [of env "ROOM_PLAYERS roomId" w] Pair by simp
  show ?thesis
  proof (cases r)
    case (Inl e)
    then show ?thesis using Pair t by (simp add: setPlayersTTL_try_def)
  next
    case (Inr players)
    then show ?thesis using Pair t by (simp add: setPlayersTTL_try_def exec_trace)
  qed
qed

lemma setPlayersTTL_trace:
  "\<exists>rest. trace (snd (setPlayersTTL env roomId w)) =
            trace w @ SMembers (ROOM_PLAYERS roomId) # rest"
  using setPlayersTTL_try_trace [of env roomId w]
  by (auto simp: setPlayersTTL_def logger_def split: prod.splits sum.splits)

lemma setQuizTTL_try_trace:
  "\<exists>rest. trace (snd (setQuizTTL_try env roomId w)) =
            trace w @ SMembers (ROOM_QUIZ_SET roomId) # rest"
proof (cases "smembers env (ROOM_QUIZ_SET roomId) w")
  case (Pair r w1)
  have t: "trace w1 = trace w @ [SMembers (ROOM_QUIZ_SET roomId)]"
    using smembers_trace [of env "ROOM_QUIZ_SET roomId" w] Pair by simp
  show ?thesis
  proof (cases r)
    case (Inl e)
    then show ?thesis using Pair t by (simp add: setQuizTTL_try_def)
  next
    case (Inr quizList)
    then show ?thesis using Pair t by (simp add: setQuizTTL_try_def exec_trace)
  qed
qed

lemma setQuizTTL_trace:
  "\<exists>rest. trace (snd (setQuizTTL env roomId w)) =
            trace w @ SMembers (ROOM_QUIZ_SET roomId) # rest"
  using setQuizTTL_try_trace [of env roomId w]
  by (auto simp: setQuizTTL_def logger_def split: prod.splits sum.splits)

lemma processBatch_trace:
  "trace (snd (processBatch env rooms w)) = trace w @ [Exec (page_commands rooms)]"
  by (simp add: processBatch_def processBatch_loop_eq exec_trace)

lemma setRoomTTL_snd: "snd (setRoomTTL env roomId w) = snd (setRoomTTL_tasks env roomId w)"
  by (simp add: setRoomTTL_def allSettled_def split: prod.splits)

lemma page_commands_skip:
  "room_identifier bad = None \<Longrightarrow> page_commands (xs @ bad # ys) = page_commands (xs @ ys)"
  by (simp add: page_commands_def room_commands_def)

lemma processBatch_eq: "processBatch env rooms w = exec env (page_commands rooms) w"
  by (simp add: processBatch_def processBatch_loop_eq)

lemma before_colon_id: "before_colon roomId = roomId \<longleftrightarrow> CHR '':'' \<notin> set roomId"
  unfolding before_colon_def by (simp add: takeWhile_eq_all_conv) blast

lemma commands_ROOM:
  "page_commands [ROOM roomId] =
     (if before_colon roomId = [] then []
      else map (\<lambda>key. Expire key TTL_ROOM) (baseKeys (before_colon roomId)))"
  by (simp add: page_commands_def room_commands_def room_identifier_ROOM baseKeys_def)

lemma exec_ok:
  "fault env (length (trace w)) (Exec pipeline) = None \<Longrightarrow>
   exec env pipeline w =
     (Inr (), w\<lparr>trace := trace w @ [Exec pipeline], store := run_cmds pipeline (store w)\<rparr>)"
  by (simp add: exec_def issue_def)

lemma smembers_ok:
  "fault env (length (trace w)) (SMembers key) = None \<Longrightarrow> \<not> wrong_type (store w) key \<Longrightarrow>
   smembers env key w = (Inr (members_of (store w) key), w\<lparr>trace := trace w @ [SMembers key]\<rparr>)"
  by (auto simp: smembers_def issue_def wrong_type_def members_of_def
      split: option.splits rvalue.splits)

lemma smembers_wrong:
  "fault env (length (trace w)) (SMembers key) = None \<Longrightarrow> wrong_type (store w) key \<Longrightarrow>
   smembers env key w = (Inl WrongType, w\<lparr>trace := trace w @ [SMembers key]\<rparr>)"
  by (auto simp: smembers_def issue_def wrong_type_def split: option.splits rvalue.splits)

lemma smembers_lost:
  "fault env (length (trace w)) (SMembers key) = Some e \<Longrightarrow>
   smembers env key w = (Inl e, w\<lparr>trace := trace w @ [SMembers key]\<rparr>)"
  by (simp add: smembers_def issue_def)

lemma members_of_wrong: "wrong_type s key \<Longrightarrow> members_of s key = []"
  by (auto simp: wrong_type_def members_of_def split: option.splits)

lemma page_commands_pos: "\<forall>c\<in>set (page_commands rooms). 0 < cmd_ttl c"
  by (auto simp: page_commands_def room_commands_def TTL_ROOM_def split: option.splits)

lemma player_commands_pos: "\<forall>c\<in>set (player_commands players). 0 < cmd_ttl c"
  by (auto simp: player_commands_def TTL_PLAYER_def)

lemma quiz_commands_pos: "\<forall>c\<in>set (quiz_commands roomId quizList). 0 < cmd_ttl c"
  by (auto simp: quiz_commands_def TTL_QUIZ_def)

lemma refresh_commands_pos: "\<forall>c\<in>set (refresh_commands s roomId). 0 < cmd_ttl c"
  using page_commands_pos player_commands_pos quiz_commands_pos
  by (auto simp: refresh_commands_def)

lemma members_of_run_cmds:
  assumes "\<forall>c\<in>set cs. 0 < cmd_ttl c"
  shows "members_of (run_cmds cs s) key = members_of s key"
  using run_cmds_val [OF assms, of s key]
  by (cases "s key"; cases "run_cmds cs s key") (auto simp: members_of_def)

lemma wrong_type_run_cmds:
  assumes "\<forall>c\<in>set cs. 0 < cmd_ttl c"
  shows "wrong_type (run_cmds cs s) key = wrong_type s key"
  using run_cmds_val [OF assms, of s key]
  by (cases "s key"; cases "run_cmds cs s key") (auto simp: wrong_type_def)

text \<open>The player task when its round trips are delivered.\<close>

lemma setPlayersTTL_ok:
  assumes sm: "\<forall>t. fault env t (SMembers (ROOM_PLAYERS roomId)) = None"
      and ex: "\<forall>t p. fault env t (Exec p) = None"
      and ty: "\<not> wrong_type (store w) (ROOM_PLAYERS roomId)"
  shows "setPlayersTTL env roomId w =
     (Inr (), w\<lparr>trace := trace w @ [SMembers (ROOM_PLAYERS roomId),
                    Exec (player_commands (members_of (store w) (ROOM_PLAYERS roomId)))],
               store := run_cmds (player_commands (members_of (store w) (ROOM_PLAYERS roomId)))
                          (store w)\<rparr>)"
  using sm ex ty
  by (simp add: setPlayersTTL_def setPlayersTTL_try_def smembers_ok exec_ok
      setPlayersTTL_loop_eq)

lemma setPlayersTTL_wrong:
  assumes sm: "\<forall>t. fault env t (SMembers (ROOM_PLAYERS roomId)) = None"
      and ty: "wrong_type (store w) (ROOM_PLAYERS roomId)"
  shows "setPlayersTTL env roomId w =
     (Inr (), w\<lparr>trace := trace w @ [SMembers (ROOM_PLAYERS roomId)],
               logs := logs w @ [Error_players_TTL_failed roomId WrongType]\<rparr>)"
  using sm ty
  by (simp add: setPlayersTTL_def setPlayersTTL_try_def smembers_wrong logger_def)

lemma setPlayersTTL_lost:
  assumes "\<forall>t. fault env t (SMembers (ROOM_PLAYERS roomId)) = Some e"
  shows "setPlayersTTL env roomId w =
     (Inr (), w\<lparr>trace := trace w @ [SMembers (ROOM_PLAYERS roomId)],
               logs := logs w @ [Error_players_TTL_failed roomId e]\<rparr>)"
  using assms
  by (simp add: setPlayersTTL_def setPlayersTTL_try_def smembers_lost logger_def)

lemma setPlayersTTL_store:
  assumes sm: "\<forall>t. fault env t (SMembers (ROOM_PLAYERS roomId)) = None"
      and ex: "\<forall>t p. fault env t (Exec p) = None"
  shows "store (snd (setPlayersTTL env roomId w)) =
     run_cmds (player_commands (members_of (store w) (ROOM_PLAYERS roomId))) (store w)"
proof (cases "wrong_type (store w) (ROOM_PLAYERS roomId)")
  case True
  then show ?thesis
    by (simp add: setPlayersTTL_wrong [OF sm True] members_of_wrong player_commands_def)
next
  case False
  then show ?thesis by (simp add: setPlayersTTL_ok [OF sm ex False])
qed

text \<open>The quiz task when its round trips are delivered.\<close>

lemma setQuizTTL_ok:
  assumes sm: "\<forall>t. fault env t (SMembers (ROOM_QUIZ_SET roomId)) = None"
      and ex: "\<forall>t p. fault env t (Exec p) = None"
      and ty: "\<not> wrong_type (store w) (ROOM_QUIZ_SET roomId)"
  shows "setQuizTTL env roomId w =
     (Inr (), w\<lparr>trace := trace w @ [SMembers (ROOM_QUIZ_SET roomId),
                    Exec (quiz_commands roomId (members_of (store w) (ROOM_QUIZ_SET roomId)))],
               store := run_cmds (quiz_commands roomId (members_of (store w) (ROOM_QUIZ_SET roomId)))
                          (store w)\<rparr>)"
  using sm ex ty
  by (simp add: setQuizTTL_def setQuizTTL_try_def smembers_ok exec_ok setQuizTTL_loop_eq)

lemma setQuizTTL_wrong:
  assumes sm: "\<forall>t. fault env t (SMembers (ROOM_QUIZ_SET roomId)) = None"
      and ty: "wrong_type (store w) (ROOM_QUIZ_SET roomId)"
  shows "setQuizTTL env roomId w =
     (Inr (), w\<lparr>trace := trace w @ [SMembers (ROOM_QUIZ_SET roomId)],
               logs := logs w @ [Error_quiz_TTL_failed roomId WrongType]\<rparr>)"
  using sm ty
  by (simp add: setQuizTTL_def setQuizTTL_try_def smembers_wrong logger_def)

lemma setQuizTTL_store:
  assumes sm: "\<forall>t. fault env t (SMembers (ROOM_QUIZ_SET roomId)) = None"
      and ex: "\<forall>t p. fault env t (Exec p) = None"
  shows "store (snd (setQuizTTL env roomId w)) =
     run_cmds (quiz_commands roomId (members_of (store w) (ROOM_QUIZ_SET roomId))) (store w)"
proof (cases "wrong_type (store w) (ROOM_QUIZ_SET roomId)")
  case True
  then show ?thesis
    by (simp add: setQuizTTL_wrong [OF sm True] members_of_wrong quiz_commands_def)
next
  case False
  then show ?thesis by (simp add: setQuizTTL_ok [OF sm ex False])
qed

lemma processBatch_ok:
  "\<forall>t p. fault env t (Exec p) = None \<Longrightarrow>
   processBatch env rooms w =
     (Inr (), w\<lparr>trace := trace w @ [Exec (page_commands rooms)],
               store := run_cmds (page_commands rooms) (store w)\<rparr>)"
  by (simp add: processBatch_eq exec_ok)

lemma refresh_commands_run_cmds:
  assumes "\<forall>c\<in>set cs. 0 < cmd_ttl c"
  shows "refresh_commands (run_cmds cs s) roomId = refresh_commands s roomId"
  by (simp add: refresh_commands_def members_of_run_cmds [OF assms])

lemma quiet_no_fault: "\<forall>t req. fault quiet t req = None"
  by (simp add: quiet_def)

lemma run_cmds_other: "k \<notin> cmd_key ` set cs \<Longrightarrow> run_cmds cs s k = s k"
proof (induction cs arbitrary: s)
  case Nil
  then show ?case by simp
next
  case (Cons c cs)
  then show ?case by (cases c) (auto split: option.splits)
qed

lemma exec_grows:
  "\<forall>c\<in>set pipeline. 0 < cmd_ttl c \<Longrightarrow> grows env w (exec env pipeline w)"
  by (auto simp: grows_def exec_def issue_def run_cmds_dom split: option.splits)

lemma processBatch_grows: "grows env w (processBatch env rooms w)"
  unfolding processBatch_eq by (rule exec_grows [OF page_commands_pos])

lemma scan_world: "snd (scan env cursor pattern count w) = issue (Scan cursor pattern count) w"
  by (simp add: scan_def split: option.splits)

lemma scan_lost:
  "fst (scan env cursor pattern count w) = Inl e \<Longrightarrow>
   fault env (length (trace w)) (Scan cursor pattern count) = Some e"
  by (simp add: scan_def split: option.splits)

lemma manageTTL_loop_grows:
  assumes "manageTTL_loop env cursor w = Some y"
  shows "grows env w y
         \<and> (\<exists>rest. trace (snd y) = trace w @ Scan cursor ''Room:*'' BATCH_SIZE # rest)"
proof (rule manageTTL_loop.raw_induct
    [where P = "\<lambda>env cursor w y. grows env w y
       \<and> (\<exists>rest. trace (snd y) = trace w @ Scan cursor ''Room:*'' BATCH_SIZE # rest)",
     OF _ assms], goal_cases)
  case (1 loop env cursor w y)
  note IH = 1(1) and hyps = 1(2)
  obtain r w1 where sc: "scan env cursor ''Room:*'' BATCH_SIZE w = (r, w1)"
    by (cases "scan env cursor ''Room:*'' BATCH_SIZE w")
  have w1: "w1 = issue (Scan cursor ''Room:*'' BATCH_SIZE) w"
    using scan_world [of env cursor "''Room:*''" BATCH_SIZE w] sc by simp
  show ?case
  proof (cases r)
    case (Inl e)
    then have y: "y = (Inl e, w1)" using hyps sc by simp
    have "fault env (length (trace w)) (Scan cursor ''Room:*'' BATCH_SIZE) = Some e"
      using scan_lost [of env cursor "''Room:*''" BATCH_SIZE w e] sc Inl by simp
    then show ?thesis unfolding y w1 by (simp add: grows_def issue_def)
  next
    case (Inr reply)
    obtain nextCursor rooms where reply: "reply = (nextCursor, rooms)" by (cases reply)
    obtain r2 w2 where
      pb: "(if 0 < length rooms then processBatch env rooms w1 else (Inr (), w1)) = (r2, w2)"
      by (cases "if 0 < length rooms then processBatch env rooms w1 else (Inr (), w1)")
    have g2: "grows env w1 (r2, w2)"
    proof (cases "0 < length rooms")
      case True
      then show ?thesis using pb processBatch_grows [of env w1 rooms] by simp
    next
      case False
      then show ?thesis using pb by (auto simp: grows_def)
    qed
    then obtain more where t2: "trace w2 = trace w @ Scan cursor ''Room:*'' BATCH_SIZE # more"
      unfolding w1 by (auto simp: grows_def issue_def)
    have d2: "dom (store w2) = dom (store w)" "logs w2 = logs w"
      using g2 unfolding w1 by (auto simp: grows_def issue_def)
    show ?thesis
    proof (cases r2)
      case (Inl e)
      then have y: "y = (Inl e, w2)" using hyps sc Inr reply pb by simp
      have "length (trace w1) < length (trace w2)
            \<and> fault env (length (trace w2) - 1) (last (trace w2)) = Some e"
        using g2 Inl by (simp add: grows_def)
      then show ?thesis unfolding y using t2 d2 by (simp add: grows_def)
    next
      case (Inr u)
      show ?thesis
      proof (cases "nextCursor = ''0''")
        case True
        then have y: "y = (Inr (), w2)" using hyps sc \<open>r = Inr reply\<close> reply pb Inr by simp
        show ?thesis unfolding y using t2 d2 by (simp add: grows_def)
      next
        case False
        then have "loop env nextCursor w2 = Some y"
          using hyps sc \<open>r = Inr reply\<close> reply pb Inr by simp
        from IH [OF this]
        have g: "grows env w2 y"
          and "\<exists>rest. trace (snd y) = trace w2 @ Scan nextCursor ''Room:*'' BATCH_SIZE # rest"
          by simp_all
        then obtain rest where
          t: "trace (snd y) = trace w2 @ Scan nextCursor ''Room:*'' BATCH_SIZE # rest" by blast
        have "length (trace w) < length (trace w2)" using t2 by simp
        then show ?thesis using g t t2 d2 by (auto simp: grows_def)
      qed
    qed
  qed
qed

lemma exec_dom:
  "\<forall>c\<in>set pipeline. 0 < cmd_ttl c \<Longrightarrow> dom (store (snd (exec env pipeline w))) = dom (store w)"
  by (simp add: exec_store run_cmds_dom split: option.splits)

lemma setPlayersTTL_dom: "dom (store (snd (setPlayersTTL env roomId w))) = dom (store w)"
proof (cases "smembers env (ROOM_PLAYERS roomId) w")
  case (Pair r w1)
  have s1: "store w1 = store w"
    using smembers_store [of env "ROOM_PLAYERS roomId" w] Pair by simp
  show ?thesis
  proof (cases r)
    case (Inl e)
    then show ?thesis
      using Pair s1 by (simp add: setPlayersTTL_def setPlayersTTL_try_def logger_def)
  next
    case (Inr players)
    have "dom (store (snd (exec env (player_commands players) w1))) = dom (store w1)"
      by (rule exec_dom [OF player_commands_pos])
    then show ?thesis
      using Pair Inr s1
      by (cases "exec env (player_commands players) w1")
         (auto simp: setPlayersTTL_def setPlayersTTL_try_def setPlayersTTL_loop_eq logger_def
          split: sum.splits)
  qed
qed

lemma setQuizTTL_dom: "dom (store (snd (setQuizTTL env roomId w))) = dom (store w)"
proof (cases "smembers env (ROOM_QUIZ_SET roomId) w")
  case (Pair r w1)
  have s1: "store w1 = store w"
    using smembers_store [of env "ROOM_QUIZ_SET roomId" w] Pair by simp
  show ?thesis
  proof (cases r)
    case (Inl e)
    then show ?thesis
      using Pair s1 by (simp add: setQuizTTL_def setQuizTTL_try_def logger_def)
  next
    case (Inr quizList)
    have "dom (store (snd (exec env (quiz_commands roomId quizList) w1))) = dom (store w1)"
      by (rule exec_dom [OF quiz_commands_pos])
    then show ?thesis
      using Pair Inr s1
      by (cases "exec env (quiz_commands roomId quizList) w1")
         (auto simp: setQuizTTL_def setQuizTTL_try_def setQuizTTL_loop_eq logger_def
          split: sum.splits)
  qed
qed

lemma processBatch_dom: "dom (store (snd (processBatch env rooms w))) = dom (store w)"
  unfolding processBatch_eq by (rule exec_dom [OF page_commands_pos])

lemma manageTTL_dom:
  assumes "manageTTL env w = Some y"
  shows "dom (store (snd y)) = dom (store w)"
proof (cases "manageTTL_loop env ''0'' w")
  case None
  then show ?thesis using assms by (simp add: manageTTL_def)
next
  case (Some z)
  obtain r w' where z: "z = (r, w')" by (cases z)
  have d: "dom (store w') = dom (store w)"
    using manageTTL_loop_grows [OF Some] by (simp add: grows_def z)
  have "store (snd y) = store w'"
    using assms Some z by (cases r) (auto simp: manageTTL_def logger_def)
  then show ?thesis using d by simp
qed

lemma run_cmds_absent: "\<forall>c\<in>set cs. s (cmd_key c) = None \<Longrightarrow> run_cmds cs s = s"
proof (induction cs)
  case Nil
  then show ?case by simp
next
  case (Cons c cs)
  then show ?case by (cases c) simp
qed

lemma not_wrong_type_absent: "s key = None \<Longrightarrow> \<not> wrong_type s key"
  by (simp add: wrong_type_def)

lemma members_of_absent: "s key = None \<Longrightarrow> members_of s key = []"
  by (simp add: members_of_def)

lemma members_of_cong:
  assumes "\<And>k. map_option val (s' k) = map_option val (s k)"
  shows "members_of s' key = members_of s key"
  using assms [of key] by (cases "s key"; cases "s' key") (auto simp: members_of_def)

lemma wrong_type_cong:
  assumes "\<And>k. map_option val (s' k) = map_option val (s k)"
  shows "wrong_type s' key = wrong_type s key"
  using assms [of key] by (cases "s key"; cases "s' key") (auto simp: wrong_type_def)

lemma exec_val:
  "\<forall>c\<in>set pipeline. 0 < cmd_ttl c \<Longrightarrow>
   map_option val (store (snd (exec env pipeline w)) key) = map_option val (store w key)"
  by (simp add: exec_store run_cmds_val split: option.splits)

lemma processBatch_val:
  "map_option val (store (snd (processBatch env rooms w)) key) = map_option val (store w key)"
  unfolding processBatch_eq by (rule exec_val [OF page_commands_pos])

lemma setPlayersTTL_val:
  "map_option val (store (snd (setPlayersTTL env roomId w)) key) = map_option val (store w key)"
proof (cases "smembers env (ROOM_PLAYERS roomId) w")
  case (Pair r w1)
  have s1: "store w1 = store w"
    using smembers_store [of env "ROOM_PLAYERS roomId" w] Pair by simp
  show ?thesis
  proof (cases r)
    case (Inl e)
    then show ?thesis
      using Pair s1 by (simp add: setPlayersTTL_def setPlayersTTL_try_def logger_def)
  next
    case (Inr players)
    have "map_option val (store (snd (exec env (player_commands players) w1)) key)
            = map_option val (store w1 key)"
      by (rule exec_val [OF player_commands_pos])
    then show ?thesis
      using Pair Inr s1
      by (cases "exec env (player_commands players) w1")
         (auto simp: setPlayersTTL_def setPlayersTTL_try_def setPlayersTTL_loop_eq logger_def
          split: sum.splits)
  qed
qed

lemma setQuizTTL_issue:
  assumes sm: "\<forall>t. fault env t (SMembers (ROOM_QUIZ_SET roomId)) = None"
      and ty: "\<not> wrong_type (store w) (ROOM_QUIZ_SET roomId)"
  shows "trace (snd (setQuizTTL env roomId w)) =
           trace w @ [SMembers (ROOM_QUIZ_SET roomId),
                      Exec (quiz_commands roomId (members_of (store w) (ROOM_QUIZ_SET roomId)))]"
proof -
  let ?w1 = "w\<lparr>trace := trace w @ [SMembers (ROOM_QUIZ_SET roomId)]\<rparr>"
  let ?Q = "quiz_commands roomId (members_of (store w) (ROOM_QUIZ_SET roomId))"
  have "trace (snd (exec env ?Q ?w1)) = trace ?w1 @ [Exec ?Q]" by (rule exec_trace)
  then show ?thesis
    using sm ty
    by (cases "exec env ?Q ?w1")
       (auto simp: setQuizTTL_def setQuizTTL_try_def smembers_ok setQuizTTL_loop_eq logger_def
        split: sum.splits)
qed

lemma setPlayersTTL_issue:
  assumes sm: "\<forall>t. fault env t (SMembers (ROOM_PLAYERS roomId)) = None"
      and ty: "\<not> wrong_type (store w) (ROOM_PLAYERS roomId)"
  shows "trace (snd (setPlayersTTL env roomId w)) =
           trace w @ [SMembers (ROOM_PLAYERS roomId),
                      Exec (player_commands (members_of (store w) (ROOM_PLAYERS roomId)))]"
proof -
  let ?w1 = "w\<lparr>trace := trace w @ [SMembers (ROOM_PLAYERS roomId)]\<rparr>"
  let ?P = "player_commands (members_of (store w) (ROOM_PLAYERS roomId))"
  have "trace (snd (exec env ?P ?w1)) = trace ?w1 @ [Exec ?P]" by (rule exec_trace)
  then show ?thesis
    using sm ty
    by (cases "exec env ?P ?w1")
       (auto simp: setPlayersTTL_def setPlayersTTL_try_def smembers_ok setPlayersTTL_loop_eq
        logger_def split: sum.splits)
qed

lemma quiz_set_not_players: "ROOM_QUIZ_SET roomId \<noteq> ROOM_PLAYERS roomId"
  by (simp add: ROOM_QUIZ_SET_def ROOM_PLAYERS_def)

lemma page_commands_append: "page_commands (xs @ ys) = page_commands xs @ page_commands ys"
  by (simp add: page_commands_def)

lemma pipelined_append: "pipelined (xs @ ys) = pipelined xs @ pipelined ys"
  by (induction xs rule: pipelined.induct) simp_all

lemma pipelined_sweep_trace:
  "pipelined (sweep_trace cursor steps) = page_commands (concat (map snd steps))"
  by (induction cursor steps rule: sweep_trace.induct) (auto simp: page_commands_def)

lemma scan_ok:
  "fault env (length (trace w)) (Scan cursor pattern count) = None \<Longrightarrow>
   scan env cursor pattern count w =
     (Inr (scan_reply env (length (trace w)) cursor),
      w\<lparr>trace := trace w @ [Scan cursor pattern count]\<rparr>)"
  by (simp add: scan_def issue_def)

lemma manageTTL_loop_sweep:
  assumes nf: "\<forall>t req. fault env t req = None"
      and static: "\<forall>t. scan_reply env t = sc"
  shows "scan_yields sc cursor steps \<Longrightarrow>
         manageTTL_loop env cursor w =
           Some (Inr (), w\<lparr>trace := trace w @ sweep_trace cursor steps,
                          store := run_cmds (page_commands (concat (map snd steps))) (store w)\<rparr>)"
proof (induction steps arbitrary: cursor w)
  case Nil
  then show ?case by simp
next
  case (Cons step steps)
  obtain nextCursor rooms where step: "step = (nextCursor, rooms)" by (cases step)
  have ex: "\<forall>t p. fault env t (Exec p) = None" using nf by simp
  have reply: "sc cursor = (nextCursor, rooms)" using Cons.prems step by simp
  define w1 where "w1 = w\<lparr>trace := trace w @ [Scan cursor ''Room:*'' BATCH_SIZE]\<rparr>"
  define w2 where "w2 = (if rooms = [] then w1
     else w1\<lparr>trace := trace w1 @ [Exec (page_commands rooms)],
             store := run_cmds (page_commands rooms) (store w1)\<rparr>)"
  have sc: "scan env cursor ''Room:*'' BATCH_SIZE w = (Inr (nextCursor, rooms), w1)"
    using nf static reply by (simp add: scan_ok w1_def)
  have pb: "(if 0 < length rooms then processBatch env rooms w1 else (Inr (), w1)) = (Inr (), w2)"
    by (simp add: w2_def processBatch_ok [OF ex])
  have unfold: "manageTTL_loop env cursor w =
      (if nextCursor \<noteq> ''0'' then manageTTL_loop env nextCursor w2 else Some (Inr (), w2))"
    by (subst manageTTL_loop.simps) (simp only: sc pb prod.case sum.case)
  have t2: "trace w2 = trace w @ Scan cursor ''Room:*'' BATCH_SIZE
              # (if rooms = [] then [] else [Exec (page_commands rooms)])"
    and s2: "store w2 = run_cmds (page_commands rooms) (store w)"
    and l2: "logs w2 = logs w"
    by (simp_all add: w2_def w1_def page_commands_def)
  have w2: "w2 = w\<lparr>trace := trace w2, store := store w2\<rparr>"
    by (simp add: w2_def w1_def)
  show ?case
  proof (cases "nextCursor = ''0''")
    case True
    then have "steps = []" using Cons.prems step by simp
    then show ?thesis
      unfolding unfold step using True w2 t2 s2 by simp
  next
    case False
    then have "scan_yields sc nextCursor steps" using Cons.prems step by simp
    from Cons.IH [OF this, of w2] False show ?thesis
      unfolding unfold step
      by (subst (asm) w2) (simp add: t2 s2 page_commands_append run_cmds_append)
  qed
qed

lemma manageTTL_loop_scan_lost:
  "fault env (length (trace w)) (Scan cursor ''Room:*'' BATCH_SIZE) = Some e \<Longrightarrow>
   manageTTL_loop env cursor w = Some (Inl e, issue (Scan cursor ''Room:*'' BATCH_SIZE) w)"
  by (subst manageTTL_loop.simps) (simp add: scan_def)

lemma manageTTL_loop_exec_lost:
  assumes "fault env (length (trace w)) (Scan cursor ''Room:*'' BATCH_SIZE) = None"
      and "scan_reply env (length (trace w)) cursor = (nextCursor, rooms)"
      and "rooms \<noteq> []"
      and "fault env (Suc (length (trace w))) (Exec (page_commands rooms)) = Some e"
  shows "manageTTL_loop env cursor w =
           Some (Inl e, issue (Exec (page_commands rooms))
                          (issue (Scan cursor ''Room:*'' BATCH_SIZE) w))"
  using assms
  by (subst manageTTL_loop.simps) (simp add: scan_def processBatch_eq exec_def issue_def)

lemma manageTTL_returns_normally:
  assumes "manageTTL env w = Some y"
  shows "fst y = Inr ()"
    and "\<exists>rest. trace (snd y) = trace w @ Scan ''0'' ''Room:*'' BATCH_SIZE # rest"
proof -
  obtain r w' where loop: "manageTTL_loop env ''0'' w = Some (r, w')"
    using assms by (cases "manageTTL_loop env ''0'' w") (auto simp: manageTTL_def)
  have y: "y = (Inr (), logger (case r of Inl e \<Rightarrow> Error_TTL_failed e | Inr u \<Rightarrow> Verbose_TTL_done) w')"
    using assms loop by (cases r) (simp_all add: manageTTL_def)
  show "fst y = Inr ()" by (simp add: y)
  obtain rest where "trace w' = trace w @ Scan ''0'' ''Room:*'' BATCH_SIZE # rest"
    using manageTTL_loop_grows [OF loop] by auto
  then show "\<exists>rest. trace (snd y) = trace w @ Scan ''0'' ''Room:*'' BATCH_SIZE # rest"
    by (simp add: y logger_def)
qed

subsection \<open>The membership tasks, piece by piece\<close>

text \<open>Run alone, the three pieces of a task are the function as it is written.\<close>

lemma setPlayersTTL_phases:
  "setPlayersTTL env roomId w =
     (case setPlayersTTL_start env roomId w of
        (reply, w1) \<Rightarrow>
          (case setPlayersTTL_resume env roomId reply w1 of
             (t, w2) \<Rightarrow> setPlayersTTL_settle roomId t w2))"
proof (cases "smembers env (ROOM_PLAYERS roomId) w")
  case (Pair reply w1)
  show ?thesis
  proof (cases reply)
    case (Inl e)
    then show ?thesis
      using Pair
      by (simp add: setPlayersTTL_def setPlayersTTL_try_def setPlayersTTL_start_def
          setPlayersTTL_resume_def setPlayersTTL_settle_def)
  next
    case (Inr players)
    obtain answer w2 where ex: "exec env (setPlayersTTL_loop [] players) w1 = (answer, w2)"
      by (cases "exec env (setPlayersTTL_loop [] players) w1")
    show ?thesis
      using Pair Inr ex
      by (cases answer)
         (simp_all add: setPlayersTTL_def setPlayersTTL_try_def setPlayersTTL_start_def
          setPlayersTTL_resume_def setPlayersTTL_settle_def)
  qed
qed

lemma setQuizTTL_phases:
  "setQuizTTL env roomId w =
     (case setQuizTTL_start env roomId w of
        (reply, w1) \<Rightarrow>
          (case setQuizTTL_resume env roomId reply w1 of
             (t, w2) \<Rightarrow> setQuizTTL_settle roomId t w2))"
proof (cases "smembers env (ROOM_QUIZ_SET roomId) w")
  case (Pair reply w1)
  show ?thesis
  proof (cases reply)
    case (Inl e)
    then show ?thesis
      using Pair
      by (simp add: setQuizTTL_def setQuizTTL_try_def setQuizTTL_start_def
          setQuizTTL_resume_def setQuizTTL_settle_def)
  next
    case (Inr quizList)
    obtain answer w2 where ex: "exec env (setQuizTTL_loop roomId [] quizList) w1 = (answer, w2)"
      by (cases "exec env (setQuizTTL_loop roomId [] quizList) w1")
    show ?thesis
      using Pair Inr ex
      by (cases answer)
         (simp_all add: setQuizTTL_def setQuizTTL_try_def setQuizTTL_start_def
          setQuizTTL_resume_def setQuizTTL_settle_def)
  qed
qed

lemma setPlayersTTL_resume_Inl:
  "setPlayersTTL_resume env roomId (Inl e) w =
     (Settled (Inr ()), w\<lparr>logs := logs w @ [Error_players_TTL_failed roomId e]\<rparr>)"
  by (simp add: setPlayersTTL_resume_def logger_def)

lemma setPlayersTTL_resume_Inr:
  "setPlayersTTL_resume env roomId (Inr players) w =
     (Awaiting (fst (exec env (player_commands players) w)),
      snd (exec env (player_commands players) w))"
  by (simp add: setPlayersTTL_resume_def setPlayersTTL_loop_eq split: prod.splits)

lemma setQuizTTL_resume_Inl:
  "setQuizTTL_resume env roomId (Inl e) w =
     (Settled (Inr ()), w\<lparr>logs := logs w @ [Error_quiz_TTL_failed roomId e]\<rparr>)"
  by (simp add: setQuizTTL_resume_def logger_def)

lemma setQuizTTL_resume_Inr:
  "setQuizTTL_resume env roomId (Inr quizList) w =
     (Awaiting (fst (exec env (quiz_commands roomId quizList) w)),
      snd (exec env (quiz_commands roomId quizList) w))"
  by (simp add: setQuizTTL_resume_def setQuizTTL_loop_eq split: prod.splits)

lemma setPlayersTTL_resume_trace:
  "trace (snd (setPlayersTTL_resume env roomId reply w)) =
     trace w @ (case reply of Inl e \<Rightarrow> [] | Inr players \<Rightarrow> [Exec (player_commands players)])"
  by (cases reply) (simp_all add: setPlayersTTL_resume_Inl setPlayersTTL_resume_Inr exec_trace)

lemma setQuizTTL_resume_trace:
  "trace (snd (setQuizTTL_resume env roomId reply w)) =
     trace w @ (case reply of Inl e \<Rightarrow> [] | Inr quizList \<Rightarrow> [Exec (quiz_commands roomId quizList)])"
  by (cases reply) (simp_all add: setQuizTTL_resume_Inl setQuizTTL_resume_Inr exec_trace)

lemma setPlayersTTL_resume_dom:
  "dom (store (snd (setPlayersTTL_resume env roomId reply w))) = dom (store w)"
  by (cases reply)
     (simp_all add: setPlayersTTL_resume_Inl setPlayersTTL_resume_Inr
      exec_dom [OF player_commands_pos])

lemma setQuizTTL_resume_dom:
  "dom (store (snd (setQuizTTL_resume env roomId reply w))) = dom (store w)"
  by (cases reply)
     (simp_all add: setQuizTTL_resume_Inl setQuizTTL_resume_Inr
      exec_dom [OF quiz_commands_pos])

lemma setPlayersTTL_resume_val:
  "map_option val (store (snd (setPlayersTTL_resume env roomId reply w)) key) =
     map_option val (store w key)"
  by (cases reply)
     (simp_all add: setPlayersTTL_resume_Inl setPlayersTTL_resume_Inr
      exec_val [OF player_commands_pos])

lemma setPlayersTTL_resume_store:
  assumes "\<forall>t p. fault env t (Exec p) = None"
  shows "store (snd (setPlayersTTL_resume env roomId reply w)) =
     run_cmds (player_commands (case reply of Inl e \<Rightarrow> [] | Inr players \<Rightarrow> players)) (store w)"
  using assms
  by (cases reply)
     (simp_all add: setPlayersTTL_resume_Inl setPlayersTTL_resume_Inr exec_store
      player_commands_def)

lemma setQuizTTL_resume_store:
  assumes "\<forall>t p. fault env t (Exec p) = None"
  shows "store (snd (setQuizTTL_resume env roomId reply w)) =
     run_cmds (quiz_commands roomId (case reply of Inl e \<Rightarrow> [] | Inr quizList \<Rightarrow> quizList))
       (store w)"
  using assms
  by (cases reply)
     (simp_all add: setQuizTTL_resume_Inl setQuizTTL_resume_Inr exec_store
      quiz_commands_def)

lemma setPlayersTTL_resume_ok:
  assumes "\<forall>t p. fault env t (Exec p) = None"
  shows "setPlayersTTL_resume env roomId (Inr players) w =
     (Awaiting (Inr ()),
      w\<lparr>trace := trace w @ [Exec (player_commands players)],
        store := run_cmds (player_commands players) (store w)\<rparr>)"
  using assms by (simp add: setPlayersTTL_resume_Inr exec_ok)

lemma setQuizTTL_resume_ok:
  assumes "\<forall>t p. fault env t (Exec p) = None"
  shows "setQuizTTL_resume env roomId (Inr quizList) w =
     (Awaiting (Inr ()),
      w\<lparr>trace := trace w @ [Exec (quiz_commands roomId quizList)],
        store := run_cmds (quiz_commands roomId quizList) (store w)\<rparr>)"
  using assms by (simp add: setQuizTTL_resume_Inr exec_ok)

lemma setPlayersTTL_settle_world:
  "store (snd (setPlayersTTL_settle roomId t w)) = store w"
  "trace (snd (setPlayersTTL_settle roomId t w)) = trace w"
  by (cases t; simp add: setPlayersTTL_settle_def logger_def split: sum.splits)+

lemma setQuizTTL_settle_world:
  "store (snd (setQuizTTL_settle roomId t w)) = store w"
  "trace (snd (setQuizTTL_settle roomId t w)) = trace w"
  by (cases t; simp add: setQuizTTL_settle_def logger_def split: sum.splits)+

lemma setPlayersTTL_settle_simps:
  "setPlayersTTL_settle roomId (Settled p) w = (p, w)"
  "setPlayersTTL_settle roomId (Awaiting (Inr u)) w = (Inr (), w)"
  "setPlayersTTL_settle roomId (Awaiting (Inl e)) w =
     (Inr (), w\<lparr>logs := logs w @ [Error_players_TTL_failed roomId e]\<rparr>)"
  by (simp_all add: setPlayersTTL_settle_def logger_def)

lemma setQuizTTL_settle_simps:
  "setQuizTTL_settle roomId (Settled p) w = (p, w)"
  "setQuizTTL_settle roomId (Awaiting (Inr u)) w = (Inr (), w)"
  "setQuizTTL_settle roomId (Awaiting (Inl e)) w =
     (Inr (), w\<lparr>logs := logs w @ [Error_quiz_TTL_failed roomId e]\<rparr>)"
  by (simp_all add: setQuizTTL_settle_def logger_def)

text \<open>Both tasks catch what they raise: they always settle fulfilled.\<close>

lemma setPlayersTTL_settle_fst:
  "fst (setPlayersTTL_settle roomId (fst (setPlayersTTL_resume env roomId reply w)) w') = Inr ()"
  by (cases reply)
     (simp_all add: setPlayersTTL_resume_Inl setPlayersTTL_resume_Inr setPlayersTTL_settle_def
      split: sum.splits)

lemma setQuizTTL_settle_fst:
  "fst (setQuizTTL_settle roomId (fst (setQuizTTL_resume env roomId reply w)) w') = Inr ()"
  by (cases reply)
     (simp_all add: setQuizTTL_resume_Inl setQuizTTL_resume_Inr setQuizTTL_settle_def
      split: sum.splits)

lemma smembers_answered:
  "fault env (length (trace w)) (SMembers key) = None \<Longrightarrow>
   smembers env key w =
     ((if wrong_type (store w) key then Inl WrongType else Inr (members_of (store w) key)),
      w\<lparr>trace := trace w @ [SMembers key]\<rparr>)"
  by (simp add: smembers_ok smembers_wrong)

subsection \<open>The refresh of one room\<close>

lemma setRoomTTL_tasks_unfold:
  "setRoomTTL_tasks env roomId w =
     (let b = processBatch env [ROOM roomId] w;
          rp = smembers env (ROOM_PLAYERS roomId) (snd b);
          rq = smembers env (ROOM_QUIZ_SET roomId) (snd rp);
          qp = setPlayersTTL_resume env roomId (fst rp) (snd rq);
          qq = setQuizTTL_resume env roomId (fst rq) (snd qp);
          sp = setPlayersTTL_settle roomId (fst qp) (snd qq);
          sq = setQuizTTL_settle roomId (fst qq) (snd sp)
      in ([fst b, fst sp, fst sq], snd sq))"
  by (simp add: setRoomTTL_tasks_def setPlayersTTL_start_def setQuizTTL_start_def Let_def
      split: prod.splits)

lemma setRoomTTL_tasks_fst:
  "fst (setRoomTTL_tasks env roomId w) = [fst (processBatch env [ROOM roomId] w), Inr (), Inr ()]"
  by (simp add: setRoomTTL_tasks_unfold Let_def setPlayersTTL_settle_fst setQuizTTL_settle_fst)

lemma setRoomTTL_dom: "dom (store (snd (setRoomTTL env roomId w))) = dom (store w)"
  by (simp add: setRoomTTL_snd setRoomTTL_tasks_unfold Let_def setQuizTTL_settle_world
      setPlayersTTL_settle_world setQuizTTL_resume_dom setPlayersTTL_resume_dom
      smembers_store processBatch_dom)

text \<open>
  The requests of a refresh, whatever is lost: the pipeline of the base keys, the two
  reads, and then the pipeline of each task whose read was answered with members.
\<close>

lemma setRoomTTL_requests:
  "trace (snd (setRoomTTL env roomId w)) =
     (let w1 = snd (processBatch env [ROOM roomId] w);
          rp = smembers env (ROOM_PLAYERS roomId) w1;
          rq = smembers env (ROOM_QUIZ_SET roomId) (snd rp)
      in trace w
         @ [Exec (page_commands [ROOM roomId]),
            SMembers (ROOM_PLAYERS roomId),
            SMembers (ROOM_QUIZ_SET roomId)]
         @ (case fst rp of Inl e \<Rightarrow> [] | Inr players \<Rightarrow> [Exec (player_commands players)])
         @ (case fst rq of Inl e \<Rightarrow> []
            | Inr quizList \<Rightarrow> [Exec (quiz_commands roomId quizList)]))"
  by (simp add: setRoomTTL_snd setRoomTTL_tasks_unfold Let_def setQuizTTL_settle_world
      setPlayersTTL_settle_world setQuizTTL_resume_trace setPlayersTTL_resume_trace
      smembers_trace processBatch_trace)

lemma setRoomTTL_trace:
  "\<exists>a b. trace (snd (setRoomTTL env roomId w)) =
     trace w @ Exec (page_commands [ROOM roomId]) # SMembers (ROOM_PLAYERS roomId) # a
       @ SMembers (ROOM_QUIZ_SET roomId) # b"
proof -
  obtain b where "trace (snd (setRoomTTL env roomId w)) =
      trace w @ [Exec (page_commands [ROOM roomId]), SMembers (ROOM_PLAYERS roomId),
                 SMembers (ROOM_QUIZ_SET roomId)] @ b"
    unfolding setRoomTTL_requests Let_def by blast
  then have "trace (snd (setRoomTTL env roomId w)) =
      trace w @ Exec (page_commands [ROOM roomId]) # SMembers (ROOM_PLAYERS roomId) # []
        @ SMembers (ROOM_QUIZ_SET roomId) # b"
    by simp
  then show ?thesis by blast
qed

text \<open>The pipelines of the player and quiz tasks reach the trace of the whole refresh.\<close>

lemma setRoomTTL_issues:
  "(\<forall>t. fault env t (SMembers (ROOM_PLAYERS roomId)) = None)
     \<and> \<not> wrong_type (store w) (ROOM_PLAYERS roomId) \<longrightarrow>
     Exec (player_commands (members_of (store w) (ROOM_PLAYERS roomId)))
       \<in> set (trace (snd (setRoomTTL env roomId w)))"
  "(\<forall>t. fault env t (SMembers (ROOM_QUIZ_SET roomId)) = None)
     \<and> \<not> wrong_type (store w) (ROOM_QUIZ_SET roomId) \<longrightarrow>
     Exec (quiz_commands roomId (members_of (store w) (ROOM_QUIZ_SET roomId)))
       \<in> set (trace (snd (setRoomTTL env roomId w)))"
proof -
  define w1 where "w1 = snd (processBatch env [ROOM roomId] w)"
  define rp where "rp = smembers env (ROOM_PLAYERS roomId) w1"
  define rq where "rq = smembers env (ROOM_QUIZ_SET roomId) (snd rp)"
  have tr: "trace (snd (setRoomTTL env roomId w)) =
      trace w
         @ [Exec (page_commands [ROOM roomId]),
            SMembers (ROOM_PLAYERS roomId),
            SMembers (ROOM_QUIZ_SET roomId)]
         @ (case fst rp of Inl e \<Rightarrow> [] | Inr players \<Rightarrow> [Exec (player_commands players)])
         @ (case fst rq of Inl e \<Rightarrow> []
            | Inr quizList \<Rightarrow> [Exec (quiz_commands roomId quizList)])"
    unfolding setRoomTTL_requests Let_def rq_def rp_def w1_def ..
  have v1: "map_option val (store w1 key) = map_option val (store w key)" for key
    unfolding w1_def by (rule processBatch_val)
  have s2: "store (snd rp) = store w1"
    unfolding rp_def by (rule smembers_store)
  show "(\<forall>t. fault env t (SMembers (ROOM_PLAYERS roomId)) = None)
     \<and> \<not> wrong_type (store w) (ROOM_PLAYERS roomId) \<longrightarrow>
     Exec (player_commands (members_of (store w) (ROOM_PLAYERS roomId)))
       \<in> set (trace (snd (setRoomTTL env roomId w)))"
  proof
    assume h: "(\<forall>t. fault env t (SMembers (ROOM_PLAYERS roomId)) = None)
        \<and> \<not> wrong_type (store w) (ROOM_PLAYERS roomId)"
    then have sm: "fault env (length (trace w1)) (SMembers (ROOM_PLAYERS roomId)) = None"
      and ty: "\<not> wrong_type (store w1) (ROOM_PLAYERS roomId)"
      using wrong_type_cong [OF v1] by simp_all
    have "fst rp = Inr (members_of (store w) (ROOM_PLAYERS roomId))"
      unfolding rp_def smembers_ok [OF sm ty] using members_of_cong [OF v1] by simp
    then show "Exec (player_commands (members_of (store w) (ROOM_PLAYERS roomId)))
       \<in> set (trace (snd (setRoomTTL env roomId w)))"
      unfolding tr by simp
  qed
  show "(\<forall>t. fault env t (SMembers (ROOM_QUIZ_SET roomId)) = None)
     \<and> \<not> wrong_type (store w) (ROOM_QUIZ_SET roomId) \<longrightarrow>
     Exec (quiz_commands roomId (members_of (store w) (ROOM_QUIZ_SET roomId)))
       \<in> set (trace (snd (setRoomTTL env roomId w)))"
  proof
    assume h: "(\<forall>t. fault env t (SMembers (ROOM_QUIZ_SET roomId)) = None)
        \<and> \<not> wrong_type (store w) (ROOM_QUIZ_SET roomId)"
    then have sm: "fault env (length (trace (snd rp))) (SMembers (ROOM_QUIZ_SET roomId)) = None"
      and ty: "\<not> wrong_type (store (snd rp)) (ROOM_QUIZ_SET roomId)"
      unfolding s2 using wrong_type_cong [OF v1] by simp_all
    have "fst rq = Inr (members_of (store w) (ROOM_QUIZ_SET roomId))"
      unfolding rq_def smembers_ok [OF sm ty] s2 using members_of_cong [OF v1] by simp
    then show "Exec (quiz_commands roomId (members_of (store w) (ROOM_QUIZ_SET roomId)))
       \<in> set (trace (snd (setRoomTTL env roomId w)))"
      unfolding tr by simp
  qed
qed

text \<open>The whole world after a refresh in which every round trip is delivered.\<close>

lemma setRoomTTL_ok:
  assumes nf: "\<forall>t req. fault env t req = None"
      and tp: "\<not> wrong_type (store w) (ROOM_PLAYERS roomId)"
      and tq: "\<not> wrong_type (store w) (ROOM_QUIZ_SET roomId)"
  shows "setRoomTTL env roomId w =
     (Inr (),
      w\<lparr>trace := trace w @
           [Exec (page_commands [ROOM roomId]),
            SMembers (ROOM_PLAYERS roomId),
            SMembers (ROOM_QUIZ_SET roomId),
            Exec (player_commands (members_of (store w) (ROOM_PLAYERS roomId))),
            Exec (quiz_commands roomId (members_of (store w) (ROOM_QUIZ_SET roomId)))],
         store := run_cmds (refresh_commands (store w) roomId) (store w)\<rparr>)"
proof -
  have ex: "\<forall>t p. fault env t (Exec p) = None" using nf by simp
  let ?B = "page_commands [ROOM roomId]"
  let ?P = "player_commands (members_of (store w) (ROOM_PLAYERS roomId))"
  let ?Q = "quiz_commands roomId (members_of (store w) (ROOM_QUIZ_SET roomId))"
  define w1 where "w1 = w\<lparr>trace := trace w @ [Exec ?B], store := run_cmds ?B (store w)\<rparr>"
  define w2 where "w2 = w1\<lparr>trace := trace w1 @ [SMembers (ROOM_PLAYERS roomId)]\<rparr>"
  define w3 where "w3 = w2\<lparr>trace := trace w2 @ [SMembers (ROOM_QUIZ_SET roomId)]\<rparr>"
  define w4 where "w4 = w3\<lparr>trace := trace w3 @ [Exec ?P], store := run_cmds ?P (store w3)\<rparr>"
  define w5 where "w5 = w4\<lparr>trace := trace w4 @ [Exec ?Q], store := run_cmds ?Q (store w4)\<rparr>"
  have p1: "processBatch env [ROOM roomId] w = (Inr (), w1)"
    unfolding w1_def by (rule processBatch_ok [OF ex])
  have tp1: "\<not> wrong_type (store w1) (ROOM_PLAYERS roomId)"
    using tp by (simp add: w1_def wrong_type_run_cmds [OF page_commands_pos])
  have m1: "members_of (store w1) (ROOM_PLAYERS roomId) = members_of (store w) (ROOM_PLAYERS roomId)"
    by (simp add: w1_def members_of_run_cmds [OF page_commands_pos])
  have r2: "setPlayersTTL_start env roomId w1 =
              (Inr (members_of (store w) (ROOM_PLAYERS roomId)), w2)"
    unfolding w2_def setPlayersTTL_start_def using nf tp1 m1 by (simp add: smembers_ok)
  have tq2: "\<not> wrong_type (store w2) (ROOM_QUIZ_SET roomId)"
    using tq by (simp add: w2_def w1_def wrong_type_run_cmds [OF page_commands_pos])
  have m2: "members_of (store w2) (ROOM_QUIZ_SET roomId) = members_of (store w) (ROOM_QUIZ_SET roomId)"
    by (simp add: w2_def w1_def members_of_run_cmds [OF page_commands_pos])
  have r3: "setQuizTTL_start env roomId w2 =
              (Inr (members_of (store w) (ROOM_QUIZ_SET roomId)), w3)"
    unfolding w3_def setQuizTTL_start_def using nf tq2 m2 by (simp add: smembers_ok)
  have q2: "setPlayersTTL_resume env roomId
              (Inr (members_of (store w) (ROOM_PLAYERS roomId))) w3 = (Awaiting (Inr ()), w4)"
    unfolding w4_def by (rule setPlayersTTL_resume_ok [OF ex])
  have q3: "setQuizTTL_resume env roomId
              (Inr (members_of (store w) (ROOM_QUIZ_SET roomId))) w4 = (Awaiting (Inr ()), w5)"
    unfolding w5_def by (rule setQuizTTL_resume_ok [OF ex])
  have "setRoomTTL env roomId w = (Inr (), w5)"
    by (simp add: setRoomTTL_def setRoomTTL_tasks_def p1 r2 r3 q2 q3 allSettled_def
        setPlayersTTL_settle_simps setQuizTTL_settle_simps)
  then show ?thesis
    by (simp add: w5_def w4_def w3_def w2_def w1_def refresh_commands_def run_cmds_append)
qed

text \<open>The store after a refresh in which every round trip is delivered.\<close>

lemma setRoomTTL_store:
  assumes nf: "\<forall>t req. fault env t req = None"
  shows "store (snd (setRoomTTL env roomId w)) =
           run_cmds (refresh_commands (store w) roomId) (store w)"
proof -
  have ex: "\<forall>t p. fault env t (Exec p) = None" using nf by simp
  let ?B = "page_commands [ROOM roomId]"
  define w1 where "w1 = snd (processBatch env [ROOM roomId] w)"
  define rp where "rp = smembers env (ROOM_PLAYERS roomId) w1"
  define rq where "rq = smembers env (ROOM_QUIZ_SET roomId) (snd rp)"
  define qp where "qp = setPlayersTTL_resume env roomId (fst rp) (snd rq)"
  define qq where "qq = setQuizTTL_resume env roomId (fst rq) (snd qp)"
  have s1: "store w1 = run_cmds ?B (store w)"
    unfolding w1_def by (simp add: processBatch_ok [OF ex])
  have s2: "store (snd rp) = store w1" unfolding rp_def by (rule smembers_store)
  have s3: "store (snd rq) = store w1" unfolding rq_def using s2 by (simp add: smembers_store)
  have mp: "(case fst rp of Inl e \<Rightarrow> [] | Inr players \<Rightarrow> players) =
              members_of (store w) (ROOM_PLAYERS roomId)"
    unfolding rp_def using nf
    by (simp add: smembers_answered members_of_wrong s1
        members_of_run_cmds [OF page_commands_pos] wrong_type_run_cmds [OF page_commands_pos])
  have mq: "(case fst rq of Inl e \<Rightarrow> [] | Inr quizList \<Rightarrow> quizList) =
              members_of (store w) (ROOM_QUIZ_SET roomId)"
    unfolding rq_def using nf
    by (simp add: smembers_answered members_of_wrong s2 s1
        members_of_run_cmds [OF page_commands_pos] wrong_type_run_cmds [OF page_commands_pos])
  have s4: "store (snd qp) =
      run_cmds (player_commands (members_of (store w) (ROOM_PLAYERS roomId))) (store w1)"
    unfolding qp_def setPlayersTTL_resume_store [OF ex] mp s3 ..
  have s5: "store (snd qq) =
      run_cmds (quiz_commands roomId (members_of (store w) (ROOM_QUIZ_SET roomId)))
        (store (snd qp))"
    unfolding qq_def setQuizTTL_resume_store [OF ex] mq ..
  have "store (snd (setRoomTTL env roomId w)) = store (snd qq)"
    by (simp add: setRoomTTL_snd setRoomTTL_tasks_unfold Let_def setQuizTTL_settle_world
        setPlayersTTL_settle_world qq_def qp_def rq_def rp_def w1_def)
  then show ?thesis
    unfolding s5 s4 s1 by (simp add: refresh_commands_def run_cmds_append)
qed

text \<open>The refresh when only the read of the player set is lost.\<close>

lemma setRoomTTL_players_lost:
  assumes lost: "\<forall>t. fault env t (SMembers (ROOM_PLAYERS roomId)) = Some e"
      and rest: "\<forall>t req. req \<noteq> SMembers (ROOM_PLAYERS roomId) \<longrightarrow> fault env t req = None"
  shows "setRoomTTL_tasks env roomId w = ([Inr (), Inr (), Inr ()], snd (setRoomTTL env roomId w))"
    and "store (snd (setRoomTTL env roomId w)) =
           run_cmds (quiz_commands roomId (members_of (store w) (ROOM_QUIZ_SET roomId)))
             (run_cmds (page_commands [ROOM roomId]) (store w))"
    and "logs (snd (setRoomTTL env roomId w)) =
           logs w @ Error_players_TTL_failed roomId e
             # (if wrong_type (store w) (ROOM_QUIZ_SET roomId)
                then [Error_quiz_TTL_failed roomId WrongType] else [])"
proof -
  have ex: "\<forall>t p. fault env t (Exec p) = None" using rest by simp
  have sq: "\<forall>t. fault env t (SMembers (ROOM_QUIZ_SET roomId)) = None"
    using rest quiz_set_not_players by simp
  let ?B = "page_commands [ROOM roomId]"
  let ?Q = "quiz_commands roomId (members_of (store w) (ROOM_QUIZ_SET roomId))"
  define w1 where "w1 = w\<lparr>trace := trace w @ [Exec ?B], store := run_cmds ?B (store w)\<rparr>"
  define w2 where "w2 = w1\<lparr>trace := trace w1 @ [SMembers (ROOM_PLAYERS roomId)]\<rparr>"
  define w3 where "w3 = w2\<lparr>trace := trace w2 @ [SMembers (ROOM_QUIZ_SET roomId)]\<rparr>"
  define w4 where "w4 = w3\<lparr>logs := logs w3 @ [Error_players_TTL_failed roomId e]\<rparr>"
  define w5 where "w5 = (if wrong_type (store w) (ROOM_QUIZ_SET roomId)
      then w4\<lparr>logs := logs w4 @ [Error_quiz_TTL_failed roomId WrongType]\<rparr>
      else w4\<lparr>trace := trace w4 @ [Exec ?Q], store := run_cmds ?Q (store w4)\<rparr>)"
  have p1: "processBatch env [ROOM roomId] w = (Inr (), w1)"
    unfolding w1_def by (rule processBatch_ok [OF ex])
  have r2: "setPlayersTTL_start env roomId w1 = (Inl e, w2)"
    unfolding w2_def setPlayersTTL_start_def using lost by (simp add: smembers_lost)
  have t2: "wrong_type (store w2) (ROOM_QUIZ_SET roomId) = wrong_type (store w) (ROOM_QUIZ_SET roomId)"
    by (simp add: w2_def w1_def wrong_type_run_cmds [OF page_commands_pos])
  have m2: "members_of (store w2) (ROOM_QUIZ_SET roomId) = members_of (store w) (ROOM_QUIZ_SET roomId)"
    by (simp add: w2_def w1_def members_of_run_cmds [OF page_commands_pos])
  have r3: "setQuizTTL_start env roomId w2 =
      ((if wrong_type (store w) (ROOM_QUIZ_SET roomId) then Inl WrongType
        else Inr (members_of (store w) (ROOM_QUIZ_SET roomId))), w3)"
    unfolding w3_def setQuizTTL_start_def using sq by (simp add: smembers_answered t2 m2)
  have q2: "setPlayersTTL_resume env roomId (Inl e) w3 = (Settled (Inr ()), w4)"
    unfolding w4_def by (rule setPlayersTTL_resume_Inl)
  have q3: "setQuizTTL_resume env roomId
      (if wrong_type (store w) (ROOM_QUIZ_SET roomId) then Inl WrongType
       else Inr (members_of (store w) (ROOM_QUIZ_SET roomId))) w4 =
      ((if wrong_type (store w) (ROOM_QUIZ_SET roomId) then Settled (Inr ())
        else Awaiting (Inr ())), w5)"
    unfolding w5_def
    by (simp add: setQuizTTL_resume_Inl setQuizTTL_resume_ok [OF ex])
  have tasks: "setRoomTTL_tasks env roomId w = ([Inr (), Inr (), Inr ()], w5)"
    by (simp add: setRoomTTL_tasks_def p1 r2 r3 q2 q3
        setPlayersTTL_settle_simps setQuizTTL_settle_simps)
  then have snd: "snd (setRoomTTL env roomId w) = w5" by (simp add: setRoomTTL_snd)
  show "setRoomTTL_tasks env roomId w = ([Inr (), Inr (), Inr ()], snd (setRoomTTL env roomId w))"
    unfolding snd by (rule tasks)
  show "store (snd (setRoomTTL env roomId w)) =
           run_cmds (quiz_commands roomId (members_of (store w) (ROOM_QUIZ_SET roomId)))
             (run_cmds (page_commands [ROOM roomId]) (store w))"
    unfolding snd
    by (simp add: w5_def w4_def w3_def w2_def w1_def members_of_wrong quiz_commands_def)
  show "logs (snd (setRoomTTL env roomId w)) =
           logs w @ Error_players_TTL_failed roomId e
             # (if wrong_type (store w) (ROOM_QUIZ_SET roomId)
                then [Error_quiz_TTL_failed roomId WrongType] else [])"
    unfolding snd by (simp add: w5_def w4_def w3_def w2_def w1_def)
qed

section \<open>The claims\<close>

text \<open>
  C1.  For every room identifier, every keyspace and every pattern of lost round trips,
  \<^verbatim>\<open>setRoomTTL\<close> returns normally.  All three tasks were started and have settled: there
  are three outcomes, the world returned is the one the last task left, and the trace
  holds the pipeline of the base keys and the two membership reads.
\<close>

theorem setRoomTTL_never_raises:
  "fst (setRoomTTL env roomId w) = Inr ()
   \<and> length (fst (setRoomTTL_tasks env roomId w)) = 3
   \<and> snd (setRoomTTL env roomId w) = snd (setRoomTTL_tasks env roomId w)
   \<and> (\<exists>a b. trace (snd (setRoomTTL env roomId w)) =
         trace w @ Exec (page_commands [ROOM roomId]) # SMembers (ROOM_PLAYERS roomId) # a
           @ SMembers (ROOM_QUIZ_SET roomId) # b)"
proof -
  have "fst (setRoomTTL env roomId w) = Inr ()"
    by (simp add: setRoomTTL_def allSettled_def split: prod.splits)
  moreover have "length (fst (setRoomTTL_tasks env roomId w)) = 3"
    by (simp add: setRoomTTL_tasks_fst)
  ultimately show ?thesis
    using setRoomTTL_snd [of env roomId w] setRoomTTL_trace [of env roomId w] by blast
qed

theorem setRoomTTL_never_raises_witness:
  "fst (setRoomTTL all_down ''42'' (world_of room42)) = Inr ()
   \<and> fst (setRoomTTL_tasks all_down ''42'' (world_of room42)) =
       [Inl TransportError, Inr (), Inr ()]
   \<and> logs (snd (setRoomTTL all_down ''42'' (world_of room42))) =
       [Error_players_TTL_failed ''42'' TransportError,
        Error_quiz_TTL_failed ''42'' TransportError]
   \<and> store (snd (setRoomTTL all_down ''42'' (world_of room42))) = room42"
proof -
  let ?w = "world_of room42"
  note t = setRoomTTL_never_raises [of all_down "''42''" ?w]
  have tasks: "setRoomTTL_tasks all_down ''42'' ?w =
      ([Inl TransportError, Inr (), Inr ()],
       \<lparr>store = room42,
        trace = [Exec (page_commands [ROOM ''42'']), SMembers (ROOM_PLAYERS ''42''),
                 SMembers (ROOM_QUIZ_SET ''42'')],
        logs = [Error_players_TTL_failed ''42'' TransportError,
                Error_quiz_TTL_failed ''42'' TransportError]\<rparr>)"
    by (simp add: setRoomTTL_tasks_def processBatch_eq exec_def setPlayersTTL_start_def
        setPlayersTTL_resume_def setPlayersTTL_settle_def setQuizTTL_start_def
        setQuizTTL_resume_def setQuizTTL_settle_def smembers_def issue_def
        logger_def all_down_def world_of_def)
  have "snd (setRoomTTL all_down ''42'' ?w) = snd (setRoomTTL_tasks all_down ''42'' ?w)"
    using t by blast
  then have "logs (snd (setRoomTTL all_down ''42'' ?w)) =
       [Error_players_TTL_failed ''42'' TransportError,
        Error_quiz_TTL_failed ''42'' TransportError]"
    and "store (snd (setRoomTTL all_down ''42'' ?w)) = room42"
    by (simp_all add: tasks)
  moreover have "fst (setRoomTTL all_down ''42'' ?w) = Inr ()" using t by blast
  ultimately show ?thesis by (simp add: tasks)
qed

text \<open>
  C2.  The three tasks of \<^verbatim>\<open>setRoomTTL\<close> do not stop one another.  Whatever round trips
  are lost, the pipeline of the base keys is sent and both membership reads are issued;
  the pipeline of the quiz task (and likewise that of the player task) is sent whenever
  its own membership read is answered, whatever happened to the other tasks.  In
  particular, when the read of the player set is lost and every other round trip is
  delivered, the call returns normally, the three tasks settle fulfilled (the player task
  after logging its error), and the keyspace is the one obtained by executing the
  expirations of the base keys and then those of the quizzes.
\<close>

theorem setRoomTTL_isolates_failure:
  "(\<exists>a b. trace (snd (setRoomTTL env roomId w)) =
       trace w @ Exec (page_commands [ROOM roomId]) # SMembers (ROOM_PLAYERS roomId) # a
         @ SMembers (ROOM_QUIZ_SET roomId) # b)
   \<and> ((\<forall>t. fault env t (SMembers (ROOM_QUIZ_SET roomId)) = None)
        \<and> \<not> wrong_type (store w) (ROOM_QUIZ_SET roomId) \<longrightarrow>
        Exec (quiz_commands roomId (members_of (store w) (ROOM_QUIZ_SET roomId)))
          \<in> set (trace (snd (setRoomTTL env roomId w))))
   \<and> ((\<forall>t. fault env t (SMembers (ROOM_PLAYERS roomId)) = None)
        \<and> \<not> wrong_type (store w) (ROOM_PLAYERS roomId) \<longrightarrow>
        Exec (player_commands (members_of (store w) (ROOM_PLAYERS roomId)))
          \<in> set (trace (snd (setRoomTTL env roomId w))))
   \<and> ((\<forall>t. fault env t (SMembers (ROOM_PLAYERS roomId)) = Some e)
        \<and> (\<forall>t req. req \<noteq> SMembers (ROOM_PLAYERS roomId) \<longrightarrow> fault env t req = None) \<longrightarrow>
        fst (setRoomTTL env roomId w) = Inr ()
        \<and> fst (setRoomTTL_tasks env roomId w) = [Inr (), Inr (), Inr ()]
        \<and> store (snd (setRoomTTL env roomId w)) =
            run_cmds (quiz_commands roomId (members_of (store w) (ROOM_QUIZ_SET roomId)))
              (run_cmds (page_commands [ROOM roomId]) (store w))
        \<and> logs (snd (setRoomTTL env roomId w)) =
            logs w @ Error_players_TTL_failed roomId e
              # (if wrong_type (store w) (ROOM_QUIZ_SET roomId)
                 then [Error_quiz_TTL_failed roomId WrongType] else []))"
proof -
  have "fst (setRoomTTL env roomId w) = Inr ()"
    by (simp add: setRoomTTL_def allSettled_def split: prod.splits)
  then show ?thesis
    using setRoomTTL_trace [of env roomId w] setRoomTTL_issues [of env roomId w]
      setRoomTTL_players_lost [of env roomId e w]
    by simp
qed

theorem setRoomTTL_isolates_failure_witness:
  "(\<forall>t. fault players_down t (SMembers (ROOM_PLAYERS ''42'')) = Some TransportError)
   \<and> (\<forall>t req. req = SMembers (ROOM_PLAYERS ''42'') \<or> fault players_down t req = None)
   \<and> fst (setRoomTTL_tasks players_down ''42'' (world_of room42)) = [Inr (), Inr (), Inr ()]
   \<and> logs (snd (setRoomTTL players_down ''42'' (world_of room42)))
       = [Error_players_TTL_failed ''42'' TransportError]
   \<and> store (snd (setRoomTTL players_down ''42'' (world_of room42))) ''Room:42:CurrentQuiz''
       = Some \<lparr>val = ROther, ttl = Some 10800\<rparr>
   \<and> store (snd (setRoomTTL players_down ''42'' (world_of room42))) ''Room:42:Quiz:q1''
       = Some \<lparr>val = ROther, ttl = Some 3600\<rparr>
   \<and> store (snd (setRoomTTL players_down ''42'' (world_of room42))) ''Player:p1''
       = Some \<lparr>val = ROther, ttl = None\<rparr>
   \<and> (\<forall>t. fault players_down t (SMembers (ROOM_QUIZ_SET ''42'')) = None)
   \<and> Exec [Expire ''Room:42:Quiz:q1'' 3600, Expire ''Room:42:Quiz:q1:Choices'' 3600]
        \<in> set (trace (snd (setRoomTTL players_down ''42'' (world_of room42))))
   \<and> (\<forall>t. fault quiet t (SMembers (ROOM_PLAYERS ''42'')) = None)
   \<and> Exec [Expire ''Player:p1'' 7200, Expire ''Player:p2'' 7200]
        \<in> set (trace (snd (setRoomTTL quiet ''42'' (world_of room42))))"
proof -
  let ?w = "world_of room42"
  have lost: "\<forall>t. fault players_down t (SMembers (ROOM_PLAYERS ''42'')) = Some TransportError"
    by (simp add: players_down_def ROOM_PLAYERS_def)
  have rest: "\<forall>t req. req \<noteq> SMembers (ROOM_PLAYERS ''42'') \<longrightarrow> fault players_down t req = None"
    by (simp add: players_down_def ROOM_PLAYERS_def)
  have ty: "\<not> wrong_type (store ?w) (ROOM_QUIZ_SET ''42'')"
    by (simp add: wrong_type_def world_of_def room42_def ROOM_QUIZ_SET_def)
  let ?cs = "page_commands [ROOM ''42'']
      @ quiz_commands ''42'' (members_of (store ?w) (ROOM_QUIZ_SET ''42''))"
  from setRoomTTL_isolates_failure [of players_down "''42''" ?w TransportError] lost rest
  have t: "fst (setRoomTTL_tasks players_down ''42'' ?w) = [Inr (), Inr (), Inr ()]
      \<and> store (snd (setRoomTTL players_down ''42'' ?w)) =
            run_cmds (quiz_commands ''42'' (members_of (store ?w) (ROOM_QUIZ_SET ''42'')))
              (run_cmds (page_commands [ROOM ''42'']) (store ?w))
      \<and> logs (snd (setRoomTTL players_down ''42'' ?w)) =
            logs ?w @ Error_players_TTL_failed ''42'' TransportError
              # (if wrong_type (store ?w) (ROOM_QUIZ_SET ''42'')
                 then [Error_quiz_TTL_failed ''42'' WrongType] else [])"
    by blast
  have cs: "?cs =
      [Expire ''Room:42'' 10800, Expire ''Room:42:Players'' 10800,
       Expire ''Room:42:Leaderboard'' 10800, Expire ''Room:42:CurrentQuiz'' 10800,
       Expire ''Room:42:Quiz:q1'' 3600, Expire ''Room:42:Quiz:q1:Choices'' 3600]"
    by (simp add: world_of_def room42_def page_commands_def room_commands_def
        room_identifier_def quiz_commands_def members_of_def ROOM_def ROOM_PLAYERS_def
        ROOM_LEADERBOARD_def ROOM_CURRENT_QUIZ_def ROOM_QUIZ_SET_def ROOM_QUIZ_def
        ROOM_QUIZ_CHOICES_def TTL_ROOM_def TTL_QUIZ_def)
  have st: "store (snd (setRoomTTL players_down ''42'' ?w)) = run_cmds ?cs (store ?w)"
    using t by (simp add: run_cmds_append)
  have s1: "store (snd (setRoomTTL players_down ''42'' ?w)) ''Room:42:CurrentQuiz''
          = Some \<lparr>val = ROther, ttl = Some 10800\<rparr>"
    and s2: "store (snd (setRoomTTL players_down ''42'' ?w)) ''Room:42:Quiz:q1''
          = Some \<lparr>val = ROther, ttl = Some 3600\<rparr>"
    and s3: "store (snd (setRoomTTL players_down ''42'' ?w)) ''Player:p1''
          = Some \<lparr>val = ROther, ttl = None\<rparr>"
    unfolding st cs by (simp_all add: world_of_def room42_def plain_def)
  have lg: "logs (snd (setRoomTTL players_down ''42'' ?w))
       = [Error_players_TTL_failed ''42'' TransportError]"
    using t ty by (simp add: world_of_def)
  have rest': "\<forall>t req. req = SMembers (ROOM_PLAYERS ''42'') \<or> fault players_down t req = None"
    by (simp add: players_down_def ROOM_PLAYERS_def)
  have qd: "\<forall>t. fault players_down t (SMembers (ROOM_QUIZ_SET ''42'')) = None"
    by (simp add: players_down_def ROOM_QUIZ_SET_def)
  have qm: "quiz_commands ''42'' (members_of (store ?w) (ROOM_QUIZ_SET ''42'')) =
      [Expire ''Room:42:Quiz:q1'' 3600, Expire ''Room:42:Quiz:q1:Choices'' 3600]"
    by (simp add: world_of_def room42_def quiz_commands_def members_of_def
        ROOM_QUIZ_SET_def ROOM_QUIZ_def ROOM_QUIZ_CHOICES_def TTL_QUIZ_def)
  have q: "Exec [Expire ''Room:42:Quiz:q1'' 3600, Expire ''Room:42:Quiz:q1:Choices'' 3600]
        \<in> set (trace (snd (setRoomTTL players_down ''42'' ?w)))"
    using setRoomTTL_isolates_failure [of players_down "''42''" ?w TransportError,
        THEN conjunct2, THEN conjunct1] qd ty
    unfolding qm by blast
  have pd: "\<forall>t. fault quiet t (SMembers (ROOM_PLAYERS ''42'')) = None"
    by (simp add: quiet_def)
  have tp: "\<not> wrong_type (store ?w) (ROOM_PLAYERS ''42'')"
    by (simp add: wrong_type_def world_of_def room42_def ROOM_PLAYERS_def)
  have pm: "player_commands (members_of (store ?w) (ROOM_PLAYERS ''42'')) =
      [Expire ''Player:p1'' 7200, Expire ''Player:p2'' 7200]"
    by (simp add: world_of_def room42_def player_commands_def members_of_def
        ROOM_PLAYERS_def PLAYER_def TTL_PLAYER_def)
  have pl: "Exec [Expire ''Player:p1'' 7200, Expire ''Player:p2'' 7200]
        \<in> set (trace (snd (setRoomTTL quiet ''42'' ?w)))"
    using setRoomTTL_isolates_failure [of quiet "''42''" ?w TransportError,
        THEN conjunct2, THEN conjunct2, THEN conjunct1] pd tp
    unfolding pm by blast
  show ?thesis
    by (intro conjI lost rest' t [THEN conjunct1] lg s1 s2 s3 qd q pd pl)
qed

text \<open>
  C3.  Whatever round trips are lost, a sweep that returns returns normally, and its
  first round trip is the scan from the cursor \<^verbatim>\<open>"0"\<close>, whatever an earlier sweep left
  behind.  When the loop ends with an error, \<^verbatim>\<open>manageTTL\<close> returns normally with the
  error logged, and the lost request is the last one of the trace: nothing was issued
  after it.  And the loop does end with the error as soon as a round trip is lost, in
  whatever page of the sweep: at a lost scan, and at a lost pipeline of a page.
\<close>

theorem manageTTL_contains_errors:
  "(\<forall>y. manageTTL env w = Some y \<longrightarrow>
        fst y = Inr ()
        \<and> (\<exists>rest. trace (snd y) = trace w @ Scan ''0'' ''Room:*'' BATCH_SIZE # rest))
   \<and> (\<forall>e w1. manageTTL_loop env ''0'' w = Some (Inl e, w1) \<longrightarrow>
        manageTTL env w = Some (Inr (), logger (Error_TTL_failed e) w1)
        \<and> length (trace w) < length (trace w1)
        \<and> fault env (length (trace w1) - 1) (last (trace w1)) = Some e)
   \<and> (\<forall>cursor w0 e.
        fault env (length (trace w0)) (Scan cursor ''Room:*'' BATCH_SIZE) = Some e \<longrightarrow>
        manageTTL_loop env cursor w0 =
          Some (Inl e, issue (Scan cursor ''Room:*'' BATCH_SIZE) w0))
   \<and> (\<forall>cursor w0 nextCursor rooms e.
        fault env (length (trace w0)) (Scan cursor ''Room:*'' BATCH_SIZE) = None
        \<and> scan_reply env (length (trace w0)) cursor = (nextCursor, rooms)
        \<and> rooms \<noteq> []
        \<and> fault env (Suc (length (trace w0))) (Exec (page_commands rooms)) = Some e \<longrightarrow>
        manageTTL_loop env cursor w0 =
          Some (Inl e, issue (Exec (page_commands rooms))
                         (issue (Scan cursor ''Room:*'' BATCH_SIZE) w0)))"
proof -
  have "manageTTL env w = Some (Inr (), logger (Error_TTL_failed e) w1)
        \<and> length (trace w) < length (trace w1)
        \<and> fault env (length (trace w1) - 1) (last (trace w1)) = Some e"
    if loop: "manageTTL_loop env ''0'' w = Some (Inl e, w1)" for e w1
    using manageTTL_loop_grows [OF loop] loop by (simp add: manageTTL_def grows_def)
  then show ?thesis
    using manageTTL_returns_normally [of env w] manageTTL_loop_scan_lost [of env]
      manageTTL_loop_exec_lost [of env]
    by blast
qed

theorem manageTTL_contains_errors_witness:
  "fault flaky 3 (Exec (page_commands [''Room:2''])) = Some TransportError
   \<and> manageTTL flaky (world_of Map.empty) =
       Some (Inr (),
             \<lparr>store = Map.empty,
              trace = [Scan ''0'' ''Room:*'' 100, Exec (page_commands [''Room:1'']),
                       Scan ''7'' ''Room:*'' 100, Exec (page_commands [''Room:2''])],
              logs = [Error_TTL_failed TransportError]\<rparr>)
   \<and> (\<exists>y rest.
         manageTTL flaky
           \<lparr>store = Map.empty,
            trace = [Scan ''0'' ''Room:*'' 100, Exec (page_commands [''Room:1'']),
                     Scan ''7'' ''Room:*'' 100, Exec (page_commands [''Room:2''])],
            logs = [Error_TTL_failed TransportError]\<rparr> = Some y
         \<and> fst y = Inr ()
         \<and> trace (snd y) =
             [Scan ''0'' ''Room:*'' 100, Exec (page_commands [''Room:1'']),
              Scan ''7'' ''Room:*'' 100, Exec (page_commands [''Room:2'']),
              Scan ''0'' ''Room:*'' 100] @ rest)
   \<and> fault flaky 3 (Scan ''0'' ''Room:*'' BATCH_SIZE) = Some TransportError
   \<and> manageTTL flaky
         \<lparr>store = Map.empty,
          trace = [SMembers ''a'', SMembers ''b'', SMembers ''c''], logs = []\<rparr> =
       Some (Inr (),
             \<lparr>store = Map.empty,
              trace = [SMembers ''a'', SMembers ''b'', SMembers ''c'',
                       Scan ''0'' ''Room:*'' 100],
              logs = [Error_TTL_failed TransportError]\<rparr>)"
proof -
  let ?w0 = "world_of Map.empty"
  let ?v = "\<lparr>store = Map.empty,
             trace = [SMembers ''a'', SMembers ''b'', SMembers ''c''], logs = []\<rparr>"
  let ?w2 = "\<lparr>store = Map.empty,
              trace = [Scan ''0'' ''Room:*'' 100, Exec (page_commands [''Room:1''])],
              logs = []\<rparr>"
  let ?w4 = "\<lparr>store = Map.empty,
              trace = [Scan ''0'' ''Room:*'' 100, Exec (page_commands [''Room:1'']),
                       Scan ''7'' ''Room:*'' 100, Exec (page_commands [''Room:2''])],
              logs = []\<rparr>"
  let ?w5 = "\<lparr>store = Map.empty,
              trace = [Scan ''0'' ''Room:*'' 100, Exec (page_commands [''Room:1'']),
                       Scan ''7'' ''Room:*'' 100, Exec (page_commands [''Room:2''])],
              logs = [Error_TTL_failed TransportError]\<rparr>"
  note t = manageTTL_contains_errors [of flaky]
  have absent: "run_cmds cs Map.empty = Map.empty" for cs
    by (rule run_cmds_absent) simp
  have lost: "fault flaky 3 (Exec (page_commands [''Room:2''])) = Some TransportError"
    by (simp add: flaky_def)
  have step1: "manageTTL_loop flaky ''0'' ?w0 = manageTTL_loop flaky ''7'' ?w2"
    by (subst manageTTL_loop.simps)
       (simp add: scan_def processBatch_eq exec_def issue_def flaky_def world_of_def
        BATCH_SIZE_def absent)
  have "manageTTL_loop flaky ''7'' ?w2 =
          Some (Inl TransportError, issue (Exec (page_commands [''Room:2'']))
                         (issue (Scan ''7'' ''Room:*'' BATCH_SIZE) ?w2))"
    by (rule t [of ?w0, THEN conjunct2, THEN conjunct2, THEN conjunct2, rule_format,
          of ?w2 "''7''" "''0''" "[''Room:2'']" TransportError])
       (simp add: flaky_def)
  then have loop: "manageTTL_loop flaky ''0'' ?w0 = Some (Inl TransportError, ?w4)"
    unfolding step1 by (simp add: issue_def BATCH_SIZE_def)
  have first: "manageTTL flaky ?w0 = Some (Inr (), ?w5)"
    using t [of ?w0, THEN conjunct2, THEN conjunct1, rule_format, OF loop]
    by (simp add: logger_def)
  have "manageTTL_loop flaky ''0'' ?w5 \<noteq> None"
    apply (subst manageTTL_loop.simps)
    apply (simp add: scan_def processBatch_eq exec_def issue_def flaky_def BATCH_SIZE_def absent)
    apply (subst manageTTL_loop.simps)
    apply (simp add: scan_def processBatch_eq exec_def issue_def flaky_def BATCH_SIZE_def absent)
    done
  then obtain r w' where z: "manageTTL_loop flaky ''0'' ?w5 = Some (r, w')"
    by auto
  have "\<exists>y. manageTTL flaky ?w5 = Some y"
    by (cases r) (simp_all add: manageTTL_def z)
  then obtain y where y: "manageTTL flaky ?w5 = Some y" ..
  from t [of ?w5, THEN conjunct1, rule_format, OF y]
  obtain rest where "fst y = Inr ()"
    "trace (snd y) = trace ?w5 @ Scan ''0'' ''Room:*'' BATCH_SIZE # rest"
    by blast
  then have "manageTTL flaky ?w5 = Some y \<and> fst y = Inr ()
      \<and> trace (snd y) =
             [Scan ''0'' ''Room:*'' 100, Exec (page_commands [''Room:1'']),
              Scan ''7'' ''Room:*'' 100, Exec (page_commands [''Room:2'']),
              Scan ''0'' ''Room:*'' 100] @ rest"
    using y by (simp add: BATCH_SIZE_def)
  then have second: "\<exists>y rest. manageTTL flaky ?w5 = Some y \<and> fst y = Inr ()
      \<and> trace (snd y) =
             [Scan ''0'' ''Room:*'' 100, Exec (page_commands [''Room:1'']),
              Scan ''7'' ''Room:*'' 100, Exec (page_commands [''Room:2'']),
              Scan ''0'' ''Room:*'' 100] @ rest"
    by blast
  have lost_scan: "fault flaky 3 (Scan ''0'' ''Room:*'' BATCH_SIZE) = Some TransportError"
    by (simp add: flaky_def)
  have "manageTTL_loop flaky ''0'' ?v =
          Some (Inl TransportError, issue (Scan ''0'' ''Room:*'' BATCH_SIZE) ?v)"
    by (rule t [of ?v, THEN conjunct2, THEN conjunct2, THEN conjunct1, rule_format])
       (simp add: flaky_def)
  from t [of ?v, THEN conjunct2, THEN conjunct1, rule_format, OF this]
  have third: "manageTTL flaky ?v =
       Some (Inr (),
             \<lparr>store = Map.empty,
              trace = [SMembers ''a'', SMembers ''b'', SMembers ''c'',
                       Scan ''0'' ''Room:*'' 100],
              logs = [Error_TTL_failed TransportError]\<rparr>)"
    by (simp add: logger_def issue_def BATCH_SIZE_def)
  show ?thesis by (intro conjI lost first second lost_scan third)
qed

text \<open>
  C4, as amended.  Take any keyspace in which the player set of room 42 has exactly the
  members \<^verbatim>\<open>p1\<close>, \<^verbatim>\<open>p2\<close> and its quiz set exactly the member \<^verbatim>\<open>q1\<close>, and let every
  round trip be delivered.  Then \<^verbatim>\<open>setRoomTTL("42")\<close> returns normally; each of
  \<^verbatim>\<open>Room:42\<close>, \<^verbatim>\<open>Room:42:Players\<close>, \<^verbatim>\<open>Room:42:Leaderboard\<close>, \<^verbatim>\<open>Room:42:CurrentQuiz\<close> that
  exists gets the \<^verbatim>\<open>ROOM\<close> time to live, each of \<^verbatim>\<open>Player:p1\<close>, \<^verbatim>\<open>Player:p2\<close> that
  exists the \<^verbatim>\<open>PLAYER\<close> one, each of \<^verbatim>\<open>Room:42:Quiz:q1\<close>, \<^verbatim>\<open>Room:42:Quiz:q1:Choices\<close> that
  exists the \<^verbatim>\<open>QUIZ\<close> one; a key that does not exist stays absent, and every other key is
  left as it was.  The requests are, in this order, the pipeline of the base keys, the
  read of the player set, the read of the quiz set, the pipeline of the members read
  from the player set and the pipeline of the members read from the quiz set, nothing
  else: the identifiers refreshed are exactly the members of the two sets.
\<close>

theorem setRoomTTL_room42:
  assumes nf: "\<forall>t req. fault env t req = None"
      and pl: "store w ''Room:42:Players'' = Some ep" "val ep = RSet ps"
              "set ps = {''p1'', ''p2''}"
      and qz: "store w ''Room:42:QuizSet'' = Some eq" "val eq = RSet qs"
              "set qs = {''q1''}"
  shows "fst (setRoomTTL env ''42'' w) = Inr ()
     \<and> (\<forall>k\<in>{''Room:42'', ''Room:42:Players'', ''Room:42:Leaderboard'', ''Room:42:CurrentQuiz''}.
          \<forall>e. store w k = Some e \<longrightarrow>
            store (snd (setRoomTTL env ''42'' w)) k = Some (e\<lparr>ttl := Some TTL_ROOM\<rparr>))
     \<and> (\<forall>k\<in>{''Player:p1'', ''Player:p2''}.
          \<forall>e. store w k = Some e \<longrightarrow>
            store (snd (setRoomTTL env ''42'' w)) k = Some (e\<lparr>ttl := Some TTL_PLAYER\<rparr>))
     \<and> (\<forall>k\<in>{''Room:42:Quiz:q1'', ''Room:42:Quiz:q1:Choices''}.
          \<forall>e. store w k = Some e \<longrightarrow>
            store (snd (setRoomTTL env ''42'' w)) k = Some (e\<lparr>ttl := Some TTL_QUIZ\<rparr>))
     \<and> (\<forall>k. k \<notin> {''Room:42'', ''Room:42:Players'', ''Room:42:Leaderboard'',
                  ''Room:42:CurrentQuiz'', ''Player:p1'', ''Player:p2'',
                  ''Room:42:Quiz:q1'', ''Room:42:Quiz:q1:Choices''} \<longrightarrow>
            store (snd (setRoomTTL env ''42'' w)) k = store w k)
     \<and> trace (snd (setRoomTTL env ''42'' w)) = trace w @
          [Exec (map (\<lambda>key. Expire key TTL_ROOM) (baseKeys ''42'')),
           SMembers ''Room:42:Players'',
           SMembers ''Room:42:QuizSet'',
           Exec (map (\<lambda>playerId. Expire (PLAYER playerId) TTL_PLAYER) ps),
           Exec (concat (map (\<lambda>quizId. [Expire (ROOM_QUIZ ''42'' quizId) TTL_QUIZ,
                                          Expire (ROOM_QUIZ_CHOICES ''42'' quizId) TTL_QUIZ]) qs))]
     \<and> logs (snd (setRoomTTL env ''42'' w)) = logs w
     \<and> dom (store (snd (setRoomTTL env ''42'' w))) = dom (store w)
     \<and> TTL_ROOM = 10800 \<and> TTL_PLAYER = 7200 \<and> TTL_QUIZ = 3600"
proof -
  have kp: "ROOM_PLAYERS ''42'' = ''Room:42:Players''" by (simp add: ROOM_PLAYERS_def)
  have kq: "ROOM_QUIZ_SET ''42'' = ''Room:42:QuizSet''" by (simp add: ROOM_QUIZ_SET_def)
  have tp: "\<not> wrong_type (store w) (ROOM_PLAYERS ''42'')"
    using pl(1,2) by (simp add: kp wrong_type_def)
  have tq: "\<not> wrong_type (store w) (ROOM_QUIZ_SET ''42'')"
    using qz(1,2) by (simp add: kq wrong_type_def)
  have mp: "members_of (store w) (ROOM_PLAYERS ''42'') = ps"
    using pl(1,2) by (simp add: kp members_of_def)
  have mq: "members_of (store w) (ROOM_QUIZ_SET ''42'') = qs"
    using qz(1,2) by (simp add: kq members_of_def)
  let ?cs = "refresh_commands (store w) ''42''"
  have base: "page_commands [ROOM ''42''] = map (\<lambda>key. Expire key TTL_ROOM) (baseKeys ''42'')"
    by (simp add: commands_ROOM before_colon_def)
  have cs: "set ?cs =
      {Expire ''Room:42'' TTL_ROOM, Expire ''Room:42:Players'' TTL_ROOM,
       Expire ''Room:42:Leaderboard'' TTL_ROOM, Expire ''Room:42:CurrentQuiz'' TTL_ROOM,
       Expire ''Player:p1'' TTL_PLAYER, Expire ''Player:p2'' TTL_PLAYER,
       Expire ''Room:42:Quiz:q1'' TTL_QUIZ, Expire ''Room:42:Quiz:q1:Choices'' TTL_QUIZ}"
    unfolding refresh_commands_def mp mq base
    by (simp add: player_commands_def quiz_commands_def pl(3) qz(3) baseKeys_def
        ROOM_def ROOM_PLAYERS_def ROOM_LEADERBOARD_def ROOM_CURRENT_QUIZ_def PLAYER_def
        ROOM_QUIZ_def ROOM_QUIZ_CHOICES_def insert_commute)
  have pos: "\<forall>c\<in>set ?cs. 0 < cmd_ttl c" by (rule refresh_commands_pos)
  have all: "setRoomTTL env ''42'' w =
     (Inr (),
      w\<lparr>trace := trace w @
           [Exec (page_commands [ROOM ''42'']), SMembers (ROOM_PLAYERS ''42''),
            SMembers (ROOM_QUIZ_SET ''42''), Exec (player_commands ps),
            Exec (quiz_commands ''42'' qs)],
         store := run_cmds ?cs (store w)\<rparr>)"
    using setRoomTTL_ok [OF nf tp tq] unfolding mp mq .
  have st: "store (snd (setRoomTTL env ''42'' w)) = run_cmds ?cs (store w)"
    unfolding all by simp
  have hit: "run_cmds ?cs (store w) k = Some (e\<lparr>ttl := Some secs\<rparr>)"
    if "Expire k secs \<in> set ?cs" "\<forall>c\<in>set ?cs. cmd_key c = k \<longrightarrow> cmd_ttl c = secs"
       "store w k = Some e" for k secs e
    using run_cmds_ttl [of ?cs k secs "store w" e] pos that by blast
  have room: "\<forall>k\<in>{''Room:42'', ''Room:42:Players'', ''Room:42:Leaderboard'', ''Room:42:CurrentQuiz''}.
          \<forall>e. store w k = Some e \<longrightarrow>
            store (snd (setRoomTTL env ''42'' w)) k = Some (e\<lparr>ttl := Some TTL_ROOM\<rparr>)"
    unfolding st by (intro ballI allI impI, rule hit) (auto simp: cs)
  have player: "\<forall>k\<in>{''Player:p1'', ''Player:p2''}.
          \<forall>e. store w k = Some e \<longrightarrow>
            store (snd (setRoomTTL env ''42'' w)) k = Some (e\<lparr>ttl := Some TTL_PLAYER\<rparr>)"
    unfolding st by (intro ballI allI impI, rule hit) (auto simp: cs)
  have quiz: "\<forall>k\<in>{''Room:42:Quiz:q1'', ''Room:42:Quiz:q1:Choices''}.
          \<forall>e. store w k = Some e \<longrightarrow>
            store (snd (setRoomTTL env ''42'' w)) k = Some (e\<lparr>ttl := Some TTL_QUIZ\<rparr>)"
    unfolding st by (intro ballI allI impI, rule hit) (auto simp: cs)
  have other: "\<forall>k. k \<notin> {''Room:42'', ''Room:42:Players'', ''Room:42:Leaderboard'',
                  ''Room:42:CurrentQuiz'', ''Player:p1'', ''Player:p2'',
                  ''Room:42:Quiz:q1'', ''Room:42:Quiz:q1:Choices''} \<longrightarrow>
            store (snd (setRoomTTL env ''42'' w)) k = store w k"
    unfolding st by (intro allI impI, rule run_cmds_other) (auto simp: cs)
  have tr: "trace (snd (setRoomTTL env ''42'' w)) = trace w @
          [Exec (map (\<lambda>key. Expire key TTL_ROOM) (baseKeys ''42'')),
           SMembers ''Room:42:Players'',
           SMembers ''Room:42:QuizSet'',
           Exec (map (\<lambda>playerId. Expire (PLAYER playerId) TTL_PLAYER) ps),
           Exec (concat (map (\<lambda>quizId. [Expire (ROOM_QUIZ ''42'' quizId) TTL_QUIZ,
                                          Expire (ROOM_QUIZ_CHOICES ''42'' quizId) TTL_QUIZ]) qs))]"
    unfolding all by (simp add: base kp kq player_commands_def quiz_commands_def)
  have lg: "logs (snd (setRoomTTL env ''42'' w)) = logs w" unfolding all by simp
  have dm: "dom (store (snd (setRoomTTL env ''42'' w))) = dom (store w)"
    by (rule setRoomTTL_dom)
  have ok: "fst (setRoomTTL env ''42'' w) = Inr ()" unfolding all by simp
  have "TTL_ROOM = 10800" "TTL_PLAYER = 7200" "TTL_QUIZ = 3600"
    by (simp_all add: TTL_ROOM_def TTL_PLAYER_def TTL_QUIZ_def)
  then show ?thesis
    by (intro conjI ok room player quiz other tr lg dm)
qed

theorem setRoomTTL_room42_witness:
  "(\<forall>t req. fault quiet t req = None)
   \<and> store (world_of room42) ''Room:42:Players'' = Some \<lparr>val = RSet [''p1'', ''p2''], ttl = None\<rparr>
   \<and> store (world_of room42) ''Room:42:QuizSet'' = Some \<lparr>val = RSet [''q1''], ttl = None\<rparr>
   \<and> store (snd (setRoomTTL quiet ''42'' (world_of room42))) ''Room:42:Leaderboard''
        = Some \<lparr>val = ROther, ttl = Some 10800\<rparr>
   \<and> store (snd (setRoomTTL quiet ''42'' (world_of room42))) ''Player:p1''
        = Some \<lparr>val = ROther, ttl = Some 7200\<rparr>
   \<and> store (snd (setRoomTTL quiet ''42'' (world_of room42))) ''Room:42:Quiz:q1:Choices''
        = Some \<lparr>val = ROther, ttl = Some 3600\<rparr>
   \<and> store (snd (setRoomTTL quiet ''42'' (world_of room42))) ''Room:42:QuizSet''
        = Some \<lparr>val = RSet [''q1''], ttl = None\<rparr>"
proof -
  let ?w = "world_of room42"
  let ?ep = "\<lparr>val = RSet [''p1'', ''p2''], ttl = None\<rparr>"
  let ?eq = "\<lparr>val = RSet [''q1''], ttl = None\<rparr>"
  have h1: "store ?w ''Room:42:Players'' = Some ?ep" by (simp add: world_of_def room42_def)
  have h2: "val ?ep = RSet [''p1'', ''p2'']" by simp
  have h3: "set [''p1'', ''p2''] = {''p1'', ''p2''}" by simp
  have h4: "store ?w ''Room:42:QuizSet'' = Some ?eq" by (simp add: world_of_def room42_def)
  have h5: "val ?eq = RSet [''q1'']" by simp
  have h6: "set [''q1''] = {''q1''}" by simp
  note t = setRoomTTL_room42 [OF quiet_no_fault h1 h2 h3 h4 h5 h6]
  have a: "store ?w ''Room:42:Leaderboard'' = Some plain"
    and b: "store ?w ''Player:p1'' = Some plain"
    and c: "store ?w ''Room:42:Quiz:q1:Choices'' = Some plain"
    by (simp_all add: world_of_def room42_def)
  note room = t [THEN conjunct2, THEN conjunct1, rule_format]
  note player = t [THEN conjunct2, THEN conjunct2, THEN conjunct1, rule_format]
  note quiz = t [THEN conjunct2, THEN conjunct2, THEN conjunct2, THEN conjunct1, rule_format]
  note other = t [THEN conjunct2, THEN conjunct2, THEN conjunct2, THEN conjunct2,
      THEN conjunct1, rule_format]
  have "store (snd (setRoomTTL quiet ''42'' ?w)) ''Room:42:Leaderboard''
          = Some (plain\<lparr>ttl := Some TTL_ROOM\<rparr>)"
    by (rule room [OF _ a]) simp
  moreover have "store (snd (setRoomTTL quiet ''42'' ?w)) ''Player:p1''
          = Some (plain\<lparr>ttl := Some TTL_PLAYER\<rparr>)"
    by (rule player [OF _ b]) simp
  moreover have "store (snd (setRoomTTL quiet ''42'' ?w)) ''Room:42:Quiz:q1:Choices''
          = Some (plain\<lparr>ttl := Some TTL_QUIZ\<rparr>)"
    by (rule quiz [OF _ c]) simp
  moreover have "store (snd (setRoomTTL quiet ''42'' ?w)) ''Room:42:QuizSet''
          = store ?w ''Room:42:QuizSet''"
    by (rule other) simp
  ultimately show ?thesis
    using quiet_no_fault h1 h4
    by (simp add: plain_def TTL_ROOM_def TTL_PLAYER_def TTL_QUIZ_def)
qed

text \<open>
  C4 as stated gives all eight keys their class time to live, on a store that is only
  said to hold the room record and the two sets.  On the store holding just these three
  keys the refresh returns normally and the six other keys are as absent afterwards as
  they were before: \<^verbatim>\<open>EXPIRE\<close> gives no time to live to a key that does not exist.
\<close>

theorem setRoomTTL_room42_counterexample:
  "store (world_of room42_bare) ''Room:42'' = Some plain
   \<and> store (world_of room42_bare) ''Room:42:Players''
       = Some \<lparr>val = RSet [''p1'', ''p2''], ttl = None\<rparr>
   \<and> store (world_of room42_bare) ''Room:42:QuizSet''
       = Some \<lparr>val = RSet [''q1''], ttl = None\<rparr>
   \<and> fst (setRoomTTL quiet ''42'' (world_of room42_bare)) = Inr ()
   \<and> store (snd (setRoomTTL quiet ''42'' (world_of room42_bare))) ''Room:42:Leaderboard'' = None
   \<and> store (snd (setRoomTTL quiet ''42'' (world_of room42_bare))) ''Room:42:CurrentQuiz'' = None
   \<and> store (snd (setRoomTTL quiet ''42'' (world_of room42_bare))) ''Player:p1'' = None
   \<and> store (snd (setRoomTTL quiet ''42'' (world_of room42_bare))) ''Player:p2'' = None
   \<and> store (snd (setRoomTTL quiet ''42'' (world_of room42_bare))) ''Room:42:Quiz:q1'' = None
   \<and> store (snd (setRoomTTL quiet ''42'' (world_of room42_bare))) ''Room:42:Quiz:q1:Choices''
       = None
   \<and> map_option ttl (store (snd (setRoomTTL quiet ''42'' (world_of room42_bare)))
        ''Room:42:Leaderboard'') \<noteq> Some (Some TTL_ROOM)
   \<and> map_option ttl (store (snd (setRoomTTL quiet ''42'' (world_of room42_bare)))
        ''Player:p1'') \<noteq> Some (Some TTL_PLAYER)
   \<and> map_option ttl (store (snd (setRoomTTL quiet ''42'' (world_of room42_bare)))
        ''Room:42:Quiz:q1'') \<noteq> Some (Some TTL_QUIZ)"
proof -
  let ?w = "world_of room42_bare"
  have tp: "\<not> wrong_type (store ?w) (ROOM_PLAYERS ''42'')"
    by (simp add: wrong_type_def world_of_def room42_bare_def ROOM_PLAYERS_def)
  have tq: "\<not> wrong_type (store ?w) (ROOM_QUIZ_SET ''42'')"
    by (simp add: wrong_type_def world_of_def room42_bare_def ROOM_QUIZ_SET_def)
  have given: "store ?w ''Room:42'' = Some plain"
    "store ?w ''Room:42:Players'' = Some \<lparr>val = RSet [''p1'', ''p2''], ttl = None\<rparr>"
    "store ?w ''Room:42:QuizSet'' = Some \<lparr>val = RSet [''q1''], ttl = None\<rparr>"
    by (simp_all add: world_of_def room42_bare_def)
  have ok: "fst (setRoomTTL quiet ''42'' ?w) = Inr ()"
    unfolding setRoomTTL_ok [OF quiet_no_fault tp tq] by simp
  have dm: "dom (store (snd (setRoomTTL quiet ''42'' ?w))) = dom (store ?w)"
    by (rule setRoomTTL_dom)
  have absent: "store (snd (setRoomTTL quiet ''42'' ?w)) k = None" if "store ?w k = None" for k
    using dm that domIff [of k "store ?w"]
      domIff [of k "store (snd (setRoomTTL quiet ''42'' ?w))"]
    by simp
  have a: "store (snd (setRoomTTL quiet ''42'' ?w)) ''Room:42:Leaderboard'' = None"
    "store (snd (setRoomTTL quiet ''42'' ?w)) ''Room:42:CurrentQuiz'' = None"
    "store (snd (setRoomTTL quiet ''42'' ?w)) ''Player:p1'' = None"
    "store (snd (setRoomTTL quiet ''42'' ?w)) ''Player:p2'' = None"
    "store (snd (setRoomTTL quiet ''42'' ?w)) ''Room:42:Quiz:q1'' = None"
    "store (snd (setRoomTTL quiet ''42'' ?w)) ''Room:42:Quiz:q1:Choices'' = None"
    by (rule absent, simp add: world_of_def room42_bare_def)+
  have b: "map_option ttl (store (snd (setRoomTTL quiet ''42'' ?w)) ''Room:42:Leaderboard'')
             \<noteq> Some (Some TTL_ROOM)"
    "map_option ttl (store (snd (setRoomTTL quiet ''42'' ?w)) ''Player:p1'')
             \<noteq> Some (Some TTL_PLAYER)"
    "map_option ttl (store (snd (setRoomTTL quiet ''42'' ?w)) ''Room:42:Quiz:q1'')
             \<noteq> Some (Some TTL_QUIZ)"
    by (simp_all add: a)
  show ?thesis by (intro conjI given ok a b)
qed

text \<open>
  C5.  For every page of scanned keys, \<^verbatim>\<open>processBatch\<close> queues, for each key whose room
  identifier parses, the \<^verbatim>\<open>ROOM\<close>-class expirations of exactly the four base keys of that
  room, in one pipeline, and executes that pipeline in one round trip: the pipeline built
  by the loop is the one the specification describes, the call is a single \<^verbatim>\<open>exec\<close> of
  it, and the trace grows by that one request.
\<close>

theorem processBatch_page:
  "processBatch_loop [] rooms = page_commands rooms
   \<and> processBatch env rooms w = exec env (page_commands rooms) w
   \<and> trace (snd (processBatch env rooms w)) = trace w @ [Exec (page_commands rooms)]
   \<and> TTL_ROOM = 10800"
  by (simp add: processBatch_def processBatch_loop_eq exec_trace TTL_ROOM_def)

theorem processBatch_page_witness:
  "processBatch_loop [] [''Room:42'', ''Room:'', ''Room:7:Players''] =
     [Expire ''Room:42'' 10800, Expire ''Room:42:Players'' 10800,
      Expire ''Room:42:Leaderboard'' 10800, Expire ''Room:42:CurrentQuiz'' 10800,
      Expire ''Room:7'' 10800, Expire ''Room:7:Players'' 10800,
      Expire ''Room:7:Leaderboard'' 10800, Expire ''Room:7:CurrentQuiz'' 10800]
   \<and> trace (snd (processBatch quiet [''Room:42'', ''Room:'', ''Room:7:Players'']
              (world_of room42))) =
       [Exec (page_commands [''Room:42'', ''Room:'', ''Room:7:Players''])]"
proof -
  let ?page = "[''Room:42'', ''Room:'', ''Room:7:Players'']"
  note t = processBatch_page [of ?page quiet "world_of room42"]
  have cs: "page_commands ?page =
     [Expire ''Room:42'' 10800, Expire ''Room:42:Players'' 10800,
      Expire ''Room:42:Leaderboard'' 10800, Expire ''Room:42:CurrentQuiz'' 10800,
      Expire ''Room:7'' 10800, Expire ''Room:7:Players'' 10800,
      Expire ''Room:7:Leaderboard'' 10800, Expire ''Room:7:CurrentQuiz'' 10800]"
    by (simp add: page_commands_def room_commands_def room_identifier_def ROOM_def
        ROOM_PLAYERS_def ROOM_LEADERBOARD_def ROOM_CURRENT_QUIZ_def TTL_ROOM_def)
  have a: "processBatch_loop [] ?page = page_commands ?page"
    using t by (rule conjunct1)
  have b: "trace (snd (processBatch quiet ?page (world_of room42))) =
      trace (world_of room42) @ [Exec (page_commands ?page)]"
    using t by blast
  show ?thesis
    unfolding a b by (simp add: cs world_of_def)
qed

text \<open>
  C6.  When every round trip is delivered, a second \<^verbatim>\<open>setRoomTTL\<close> on the same room
  right after the first leaves the keyspace exactly as the first call left it.  Every key
  that exists and is aimed at by an expiration of the refresh carries, after the second
  call, the time to live of such an expiration, which is one of the three class values
  (10800, 7200, 3600 seconds): nothing is added up.
\<close>

theorem setRoomTTL_idempotent:
  assumes nf: "\<forall>t req. fault env t req = None"
  shows "store (snd (setRoomTTL env roomId (snd (setRoomTTL env roomId w)))) =
           store (snd (setRoomTTL env roomId w))
         \<and> (\<forall>k e. store w k = Some e \<and> k \<in> cmd_key ` set (refresh_commands (store w) roomId) \<longrightarrow>
               (\<exists>secs. Expire k secs \<in> set (refresh_commands (store w) roomId)
                  \<and> secs \<in> {TTL_ROOM, TTL_PLAYER, TTL_QUIZ}
                  \<and> store (snd (setRoomTTL env roomId (snd (setRoomTTL env roomId w)))) k =
                      Some (e\<lparr>ttl := Some secs\<rparr>)))
         \<and> TTL_ROOM = 10800 \<and> TTL_PLAYER = 7200 \<and> TTL_QUIZ = 3600"
proof -
  let ?cs = "refresh_commands (store w) roomId"
  let ?w1 = "snd (setRoomTTL env roomId w)"
  let ?w2 = "snd (setRoomTTL env roomId ?w1)"
  have pos: "\<forall>c\<in>set ?cs. 0 < cmd_ttl c" by (rule refresh_commands_pos)
  have s1: "store ?w1 = run_cmds ?cs (store w)" by (rule setRoomTTL_store [OF nf])
  have "store ?w2 = run_cmds (refresh_commands (store ?w1) roomId) (store ?w1)"
    by (rule setRoomTTL_store [OF nf])
  then have s2: "store ?w2 = run_cmds ?cs (store w)"
    unfolding s1 by (simp add: refresh_commands_run_cmds [OF pos] run_cmds_idem [OF pos])
  have classes: "\<forall>c\<in>set ?cs. cmd_ttl c \<in> {TTL_ROOM, TTL_PLAYER, TTL_QUIZ}"
    by (auto simp: refresh_commands_def page_commands_def room_commands_def
        player_commands_def quiz_commands_def split: option.splits)
  have "\<exists>secs. Expire k secs \<in> set ?cs \<and> secs \<in> {TTL_ROOM, TTL_PLAYER, TTL_QUIZ}
           \<and> store ?w2 k = Some (e\<lparr>ttl := Some secs\<rparr>)"
    if ex: "store w k = Some e" and mem: "k \<in> cmd_key ` set ?cs" for k e
  proof -
    obtain secs where l: "last_ttl ?cs k = Some secs"
      using mem last_ttl_None [of ?cs k] by (cases "last_ttl ?cs k") auto
    have m: "Expire k secs \<in> set ?cs" by (rule last_ttl_mem [OF l])
    then have "secs \<in> {TTL_ROOM, TTL_PLAYER, TTL_QUIZ}" using classes by force
    moreover have "store ?w2 k = Some (e\<lparr>ttl := Some secs\<rparr>)"
      unfolding s2 run_cmds_lookup [OF pos] using ex l by (simp add: set_ttl_def)
    ultimately show ?thesis using m by blast
  qed
  then show ?thesis using s1 s2
    by (simp add: TTL_ROOM_def TTL_PLAYER_def TTL_QUIZ_def)
qed

theorem setRoomTTL_idempotent_witness:
  "(\<forall>t req. fault quiet t req = None)
   \<and> store (snd (setRoomTTL quiet ''42'' (snd (setRoomTTL quiet ''42'' (world_of room42)))))
       ''Player:p2'' = Some \<lparr>val = ROther, ttl = Some 7200\<rparr>"
proof -
  let ?w = "world_of room42"
  have tp: "\<not> wrong_type (store ?w) (ROOM_PLAYERS ''42'')"
    by (simp add: wrong_type_def world_of_def room42_def ROOM_PLAYERS_def)
  have tq: "\<not> wrong_type (store ?w) (ROOM_QUIZ_SET ''42'')"
    by (simp add: wrong_type_def world_of_def room42_def ROOM_QUIZ_SET_def)
  have "store (snd (setRoomTTL quiet ''42'' ?w)) ''Player:p2''
          = Some \<lparr>val = ROther, ttl = Some 7200\<rparr>"
    unfolding setRoomTTL_ok [OF quiet_no_fault tp tq]
    by (simp add: world_of_def room42_def plain_def refresh_commands_def page_commands_def
        room_commands_def room_identifier_def player_commands_def quiz_commands_def
        members_of_def ROOM_def ROOM_PLAYERS_def ROOM_LEADERBOARD_def ROOM_CURRENT_QUIZ_def
        ROOM_QUIZ_SET_def ROOM_QUIZ_def ROOM_QUIZ_CHOICES_def PLAYER_def
        TTL_ROOM_def TTL_PLAYER_def TTL_QUIZ_def)
  then show ?thesis
    using setRoomTTL_idempotent [OF quiet_no_fault, of "''42''" ?w] quiet_no_fault by simp
qed

text \<open>
  C7.  Neither \<^verbatim>\<open>setRoomTTL\<close> nor a sweep that returns changes which keys exist, whatever
  round trips are lost; \<^verbatim>\<open>EXPIRE\<close> on an absent key leaves the keyspace as it is.  When
  every round trip is delivered and none of the keys of a room exists (no player set, no
  quiz set, no base key), \<^verbatim>\<open>setRoomTTL\<close> returns normally, all three tasks are fulfilled,
  nothing is logged and the keyspace is unchanged.
\<close>

theorem refresh_creates_no_key:
  "dom (store (snd (setRoomTTL env roomId w))) = dom (store w)
   \<and> (\<forall>y. manageTTL env w = Some y \<longrightarrow> dom (store (snd y)) = dom (store w))
   \<and> (store w k = None \<longrightarrow> run_cmd (Expire k secs) (store w) = store w)
   \<and> ((\<forall>t req. fault env t req = None)
        \<and> store w (ROOM_PLAYERS roomId) = None \<and> store w (ROOM_QUIZ_SET roomId) = None
        \<and> (\<forall>key\<in>set (baseKeys (before_colon roomId)). store w key = None) \<longrightarrow>
          fst (setRoomTTL env roomId w) = Inr ()
          \<and> fst (setRoomTTL_tasks env roomId w) = [Inr (), Inr (), Inr ()]
          \<and> store (snd (setRoomTTL env roomId w)) = store w
          \<and> logs (snd (setRoomTTL env roomId w)) = logs w)"
proof -
  have quiet_case: "fst (setRoomTTL env roomId w) = Inr ()
          \<and> fst (setRoomTTL_tasks env roomId w) = [Inr (), Inr (), Inr ()]
          \<and> store (snd (setRoomTTL env roomId w)) = store w
          \<and> logs (snd (setRoomTTL env roomId w)) = logs w"
    if nf: "\<forall>t req. fault env t req = None"
      and np: "store w (ROOM_PLAYERS roomId) = None"
      and nq: "store w (ROOM_QUIZ_SET roomId) = None"
      and nb: "\<forall>key\<in>set (baseKeys (before_colon roomId)). store w key = None"
  proof -
    have ex: "\<forall>t p. fault env t (Exec p) = None" using nf by simp
    have cs: "refresh_commands (store w) roomId = page_commands [ROOM roomId]"
      by (simp add: refresh_commands_def members_of_absent [of "store w", OF np] members_of_absent [of "store w", OF nq]
          player_commands_def quiz_commands_def)
    have "\<forall>c\<in>set (page_commands [ROOM roomId]). store w (cmd_key c) = None"
      using nb by (auto simp: commands_ROOM)
    then have same: "run_cmds (refresh_commands (store w) roomId) (store w) = store w"
      unfolding cs by (rule run_cmds_absent)
    note all = setRoomTTL_ok [OF nf not_wrong_type_absent [of "store w", OF np] not_wrong_type_absent [of "store w", OF nq]]
    have "fst (setRoomTTL_tasks env roomId w) = [Inr (), Inr (), Inr ()]"
      by (simp add: setRoomTTL_tasks_fst processBatch_ok [OF ex])
    then show ?thesis unfolding all using same by simp
  qed
  have "\<forall>y. manageTTL env w = Some y \<longrightarrow> dom (store (snd y)) = dom (store w)"
    using manageTTL_dom by blast
  moreover have "store w k = None \<longrightarrow> run_cmd (Expire k secs) (store w) = store w"
    by simp
  ultimately show ?thesis using setRoomTTL_dom [of env roomId w] quiet_case by blast
qed

theorem refresh_creates_no_key_witness:
  "(\<forall>t req. fault quiet t req = None)
   \<and> store (world_of room42) (ROOM_PLAYERS ''nonexistent'') = None
   \<and> store (world_of room42) (ROOM_QUIZ_SET ''nonexistent'') = None
   \<and> store (world_of room42) ''Room:nonexistent'' = None
   \<and> store (world_of room42) ''Room:nonexistent:Leaderboard'' = None
   \<and> store (world_of room42) ''Room:nonexistent:CurrentQuiz'' = None
   \<and> manageTTL quiet (world_of room42) \<noteq> None
   \<and> fst (setRoomTTL_tasks quiet ''nonexistent'' (world_of room42)) = [Inr (), Inr (), Inr ()]
   \<and> store (snd (setRoomTTL quiet ''nonexistent'' (world_of room42))) = room42"
proof -
  let ?w = "world_of room42"
  have np: "store ?w (ROOM_PLAYERS ''nonexistent'') = None"
    by (simp add: world_of_def room42_def ROOM_PLAYERS_def)
  have nq: "store ?w (ROOM_QUIZ_SET ''nonexistent'') = None"
    by (simp add: world_of_def room42_def ROOM_QUIZ_SET_def)
  have nb: "\<forall>key\<in>set (baseKeys (before_colon ''nonexistent'')). store ?w key = None"
    by (simp add: world_of_def room42_def baseKeys_def before_colon_def ROOM_def
        ROOM_PLAYERS_def ROOM_LEADERBOARD_def ROOM_CURRENT_QUIZ_def)
  have others: "store ?w ''Room:nonexistent'' = None"
    "store ?w ''Room:nonexistent:Leaderboard'' = None"
    "store ?w ''Room:nonexistent:CurrentQuiz'' = None"
    by (simp_all add: world_of_def room42_def)
  have sweep: "manageTTL quiet ?w \<noteq> None"
    by (subst manageTTL_def, subst manageTTL_loop.simps)
       (simp add: scan_def quiet_def)
  from refresh_creates_no_key [of quiet "''nonexistent''" ?w] quiet_no_fault np nq nb
  have "fst (setRoomTTL_tasks quiet ''nonexistent'' ?w) = [Inr (), Inr (), Inr ()]
        \<and> store (snd (setRoomTTL quiet ''nonexistent'' ?w)) = store ?w"
    by blast
  then show ?thesis using quiet_no_fault np nq others sweep by (simp add: world_of_def)
qed

text \<open>
  C8.  Let no round trip be lost and let the scan be static: the reply to a cursor does
  not change during the sweep, and iterated from \<^verbatim>\<open>"0"\<close> it comes back to \<^verbatim>\<open>"0"\<close> after
  the replies \<open>steps\<close>, whose pages together list the room keys.  Then \<^verbatim>\<open>manageTTL\<close>
  returns; it issues one scan for each reply and one pipeline for each page that is not
  empty, in that order; and the commands of its pipelines, taken together, are the
  expirations of each listed key, once for each place the key has in the pages and in
  the order of the pages.  A key that the scan lists once is therefore visited once.
\<close>

theorem manageTTL_full_sweep:
  assumes nf: "\<forall>t req. fault env t req = None"
      and static: "\<forall>t. scan_reply env t = sc"
      and walk: "scan_yields sc ''0'' steps"
  shows "manageTTL env w =
           Some (Inr (), w\<lparr>trace := trace w @ sweep_trace ''0'' steps,
                          store := run_cmds (page_commands (concat (map snd steps))) (store w),
                          logs := logs w @ [Verbose_TTL_done]\<rparr>)
         \<and> pipelined (sweep_trace ''0'' steps) =
             concat (map room_commands (concat (map snd steps)))"
proof -
  have "manageTTL env w =
           Some (Inr (), w\<lparr>trace := trace w @ sweep_trace ''0'' steps,
                          store := run_cmds (page_commands (concat (map snd steps))) (store w),
                          logs := logs w @ [Verbose_TTL_done]\<rparr>)"
    by (simp add: manageTTL_def manageTTL_loop_sweep [OF nf static walk] logger_def)
  moreover have "pipelined (sweep_trace ''0'' steps) =
             concat (map room_commands (concat (map snd steps)))"
    by (simp add: pipelined_sweep_trace page_commands_def)
  ultimately show ?thesis by blast
qed

theorem manageTTL_full_sweep_witness:
  "(\<forall>t req. fault paged t req = None)
   \<and> (\<forall>t. scan_reply paged t = paged_scan)
   \<and> scan_yields paged_scan ''0''
        [(''7'', [''Room:42'', ''Room:42:Players'']), (''3'', []), (''0'', [''Room:9''])]
   \<and> map_option fst (manageTTL paged (world_of room42)) = Some (Inr ())
   \<and> map_option (\<lambda>y. trace (snd y)) (manageTTL paged (world_of room42)) =
        Some [Scan ''0'' ''Room:*'' 100,
              Exec (room_commands ''Room:42'' @ room_commands ''Room:42:Players''),
              Scan ''7'' ''Room:*'' 100,
              Scan ''3'' ''Room:*'' 100,
              Exec (room_commands ''Room:9'')]"
proof -
  let ?steps = "[(''7'', [''Room:42'', ''Room:42:Players'']), (''3'', []), (''0'', [''Room:9''])]"
  have nf: "\<forall>t req. fault paged t req = None" by (simp add: paged_def)
  have static: "\<forall>t. scan_reply paged t = paged_scan" by (simp add: paged_def)
  have walk: "scan_yields paged_scan ''0'' ?steps" by (simp add: paged_scan_def)
  note t = manageTTL_full_sweep [OF nf static walk, of "world_of room42", THEN conjunct1]
  have a: "map_option fst (manageTTL paged (world_of room42)) = Some (Inr ())"
    unfolding t by simp
  have b: "map_option (\<lambda>y. trace (snd y)) (manageTTL paged (world_of room42)) =
        Some [Scan ''0'' ''Room:*'' 100,
              Exec (room_commands ''Room:42'' @ room_commands ''Room:42:Players''),
              Scan ''7'' ''Room:*'' 100,
              Scan ''3'' ''Room:*'' 100,
              Exec (room_commands ''Room:9'')]"
    unfolding t by (simp add: world_of_def page_commands_def BATCH_SIZE_def)
  show ?thesis by (intro conjI nf static walk a b)
qed

text \<open>
  C9.  A page holding the malformed key \<^verbatim>\<open>Room:\<close> (empty identifier) or \<^verbatim>\<open>Room\<close> (no
  separator) is processed exactly as the page without that key: the key is skipped, the
  keys before and after it keep their expirations, and unless the round trip of the
  pipeline itself is lost the call returns normally and the valid keys are expired.
\<close>

theorem processBatch_skips_malformed:
  "processBatch env (xs @ ''Room:'' # ys) w = processBatch env (xs @ ys) w
   \<and> processBatch env (xs @ ''Room'' # ys) w = processBatch env (xs @ ys) w
   \<and> (fault env (length (trace w)) (Exec (page_commands (xs @ ys))) = None \<longrightarrow>
        fst (processBatch env (xs @ ''Room:'' # ys) w) = Inr ()
        \<and> fst (processBatch env (xs @ ''Room'' # ys) w) = Inr ()
        \<and> store (snd (processBatch env (xs @ ''Room:'' # ys) w)) =
            run_cmds (page_commands (xs @ ys)) (store w)
        \<and> store (snd (processBatch env (xs @ ''Room'' # ys) w)) =
            run_cmds (page_commands (xs @ ys)) (store w))"
proof -
  have a: "room_identifier ''Room:'' = None" by (simp add: room_identifier_def)
  have b: "room_identifier ''Room'' = None" by (simp add: room_identifier_def)
  show ?thesis
    by (simp add: processBatch_eq page_commands_skip [OF a] page_commands_skip [OF b]
        exec_fst exec_store)
qed

theorem processBatch_skips_malformed_witness:
  "fault quiet (length (trace (world_of [''Room:7'' \<mapsto> plain])))
      (Exec (page_commands ([''Room:7''] @ [''Room:8'']))) = None
   \<and> fst (processBatch quiet ([''Room:7''] @ ''Room:'' # [''Room:8''])
            (world_of [''Room:7'' \<mapsto> plain])) = Inr ()
   \<and> store (snd (processBatch quiet ([''Room:7''] @ ''Room'' # [''Room:8''])
            (world_of [''Room:7'' \<mapsto> plain]))) ''Room:7''
       = Some \<lparr>val = ROther, ttl = Some 10800\<rparr>"
proof -
  let ?w = "world_of [''Room:7'' \<mapsto> plain]"
  let ?cs = "page_commands ([''Room:7''] @ [''Room:8''])"
  have h: "fault quiet (length (trace ?w)) (Exec ?cs) = None"
    by (simp add: quiet_def)
  have r: "run_cmds ?cs (store ?w) ''Room:7'' = Some \<lparr>val = ROther, ttl = Some 10800\<rparr>"
    by (simp add: world_of_def plain_def page_commands_def room_commands_def
        room_identifier_def ROOM_def ROOM_PLAYERS_def ROOM_LEADERBOARD_def
        ROOM_CURRENT_QUIZ_def TTL_ROOM_def)
  from processBatch_skips_malformed [of quiet "[''Room:7'']" "[''Room:8'']" ?w] h
  have "fst (processBatch quiet ([''Room:7''] @ ''Room:'' # [''Room:8'']) ?w) = Inr ()
     \<and> store (snd (processBatch quiet ([''Room:7''] @ ''Room'' # [''Room:8'']) ?w)) =
         run_cmds ?cs (store ?w)"
    by blast
  with h r show ?thesis by simp
qed

text \<open>
  C10, as amended.  The base-key task of \<^verbatim>\<open>setRoomTTL\<close> takes its room identifier back
  out of the key \<^verbatim>\<open>Room:{roomId}\<close>: the piece between the first and the second colon,
  which is the part of \<^verbatim>\<open>roomId\<close> before its first colon (all of it exactly when it has
  no colon).  When that part is not empty the pipeline holds the four base keys of that
  part; when it is empty, which happens for the empty \<^verbatim>\<open>roomId\<close> and for every
  \<^verbatim>\<open>roomId\<close> that begins with a colon, the pipeline is empty.  In every case the
  pipeline is executed and the player and quiz tasks issue their membership reads.
\<close>

theorem setRoomTTL_base_keys:
  "processBatch_loop [] [ROOM roomId] =
     (if before_colon roomId = [] then []
      else map (\<lambda>key. Expire key TTL_ROOM) (baseKeys (before_colon roomId)))
   \<and> index (split_str CHR '':'' (ROOM roomId)) 1 = Some (before_colon roomId)
   \<and> (before_colon roomId = roomId \<longleftrightarrow> CHR '':'' \<notin> set roomId)
   \<and> (before_colon roomId = [] \<longleftrightarrow> roomId = [] \<or> take 1 roomId = '':'')
   \<and> (\<exists>a b. trace (snd (setRoomTTL env roomId w)) =
         trace w @ Exec (processBatch_loop [] [ROOM roomId])
           # SMembers (ROOM_PLAYERS roomId) # a @ SMembers (ROOM_QUIZ_SET roomId) # b)"
proof -
  have "index (split_str CHR '':'' (ROOM roomId)) 1 = Some (before_colon roomId)"
    unfolding index_split_room_identifier by (simp add: ROOM_def before_colon_def)
  moreover have "before_colon roomId = [] \<longleftrightarrow> roomId = [] \<or> take 1 roomId = '':''"
    by (cases roomId) (auto simp: before_colon_def)
  ultimately show ?thesis
    using setRoomTTL_trace [of env roomId w]
    by (simp add: processBatch_loop_eq commands_ROOM before_colon_id)
qed

theorem setRoomTTL_base_keys_witness:
  "processBatch_loop [] [ROOM ''a:b''] =
     [Expire ''Room:a'' 10800, Expire ''Room:a:Players'' 10800,
      Expire ''Room:a:Leaderboard'' 10800, Expire ''Room:a:CurrentQuiz'' 10800]
   \<and> processBatch_loop [] [ROOM []] = []"
  using setRoomTTL_base_keys [of "''a:b''"] setRoomTTL_base_keys [of "[]"]
  by (simp add: before_colon_def baseKeys_def ROOM_def ROOM_PLAYERS_def
      ROOM_LEADERBOARD_def ROOM_CURRENT_QUIZ_def TTL_ROOM_def)

text \<open>
  C10 as stated excepts only the empty \<^verbatim>\<open>roomId\<close> from the four expirations.  The
  identifier \<^verbatim>\<open>:x\<close> is not empty, and yet nothing is queued for it.
\<close>

theorem setRoomTTL_base_keys_counterexample:
  "'':x'' \<noteq> [] \<and> processBatch_loop [] [ROOM '':x''] = []
   \<and> processBatch_loop [] [ROOM '':x''] \<noteq>
       [Expire (ROOM (before_colon '':x'')) TTL_ROOM,
        Expire (ROOM_PLAYERS (before_colon '':x'')) TTL_ROOM,
        Expire (ROOM_LEADERBOARD (before_colon '':x'')) TTL_ROOM,
        Expire (ROOM_CURRENT_QUIZ (before_colon '':x'')) TTL_ROOM]"
  by (simp add: ROOM_def index_def)

end
